theory Spec2Isabelle
  imports Main "HOL-Library.AList" "HOL-Library.Sublist"
begin

section \<open>JavaScript values\<close>

text \<open>
  The values the request client receives as paths, payloads, query parameters and tokens.
  Numbers are the integers that JavaScript holds exactly, \<open>|n| < 2^53\<close> (a value such as
  \<open>NaN\<close>, \<open>1.5\<close> or \<open>1e21\<close>, which prints with an exponent, is outside the model); a
  string is its sequence of UTF-8 bytes; an object is the list of its own enumerable
  entries in the order \<open>Object.entries\<close> yields them; \<open>JBlob ty\<close> is a \<open>Blob\<close> whose
  \<open>type\<close> is \<open>ty\<close>.
\<close>

datatype jsval =
    JUndefined
  | JNull
  | JBool bool
  | JNum int
  | JStr string
  | JArr "jsval list"
  | JObj "(string \<times> jsval) list"
  | JFormData
  | JBlob string

fun truthy :: "jsval \<Rightarrow> bool" where
  "truthy JUndefined = False"
| "truthy JNull = False"
| "truthy (JBool b) = b"
| "truthy (JNum n) = (n \<noteq> 0)"
| "truthy (JStr s) = (s \<noteq> [])"
| "truthy _ = True"

fun typeof :: "jsval \<Rightarrow> string" where
  "typeof JUndefined = ''undefined''"
| "typeof (JBool _) = ''boolean''"
| "typeof (JNum _) = ''number''"
| "typeof (JStr _) = ''string''"
| "typeof _ = ''object''"

text \<open>Truthiness of an optional string (\<open>string | null\<close>), as in \<open>this.#token ? ... : ...\<close>.\<close>

fun truthy_str :: "string option \<Rightarrow> bool" where
  "truthy_str None = False"
| "truthy_str (Some s) = (s \<noteq> [])"

subsection \<open>Conversion to string\<close>

fun dec_nat :: "nat \<Rightarrow> string" where
  "dec_nat n =
     (if n < 10 then [''0123456789'' ! n]
      else dec_nat (n div 10) @ [''0123456789'' ! (n mod 10)])"

declare dec_nat.simps [simp del]

definition dec_int :: "int \<Rightarrow> string" where
  "dec_int i = (if i < 0 then CHR ''-'' # dec_nat (nat (- i)) else dec_nat (nat i))"

fun join_with :: "string \<Rightarrow> string list \<Rightarrow> string" where
  "join_with sep [] = []"
| "join_with sep [x] = x"
| "join_with sep (x # y # ys) = x @ sep @ join_with sep (y # ys)"

text \<open>
  \<open>ToString\<close>, which \<open>URLSearchParams.append\<close> applies to its arguments. An array is its
  elements joined by commas, with \<open>null\<close> and \<open>undefined\<close> elements left empty.
\<close>

fun to_string :: "jsval \<Rightarrow> string"
  and elem_strings :: "jsval list \<Rightarrow> string list" where
  "to_string JUndefined = ''undefined''"
| "to_string JNull = ''null''"
| "to_string (JBool b) = (if b then ''true'' else ''false'')"
| "to_string (JNum n) = dec_int n"
| "to_string (JStr s) = s"
| "to_string (JArr vs) = join_with '','' (elem_strings vs)"
| "to_string (JObj _) = ''[object Object]''"
| "to_string JFormData = ''[object FormData]''"
| "to_string (JBlob _) = ''[object Blob]''"
| "elem_strings [] = []"
| "elem_strings (v # vs) =
     (if v = JUndefined \<or> v = JNull then [] else to_string v) # elem_strings vs"

text \<open>
  \<open>Object.entries\<close>: the entries of a plain object, the indexed elements of an array,
  nothing for a \<open>FormData\<close> or a \<open>Blob\<close> (they have no own enumerable properties).
\<close>

fun index_from :: "nat \<Rightarrow> jsval list \<Rightarrow> (string \<times> jsval) list" where
  "index_from i [] = []"
| "index_from i (v # vs) = (dec_nat i, v) # index_from (Suc i) vs"

fun entries :: "jsval \<Rightarrow> (string \<times> jsval) list" where
  "entries (JObj kvs) = kvs"
| "entries (JArr vs) = index_from 0 vs"
| "entries _ = []"

section \<open>URLs\<close>

text \<open>
  A parsed URL as the platform's \<open>URL\<close> object holds it: \<open>url_base\<close> is the serialisation
  of scheme, authority and path, \<open>url_query\<close> the query (\<open>None\<close> when the URL has none),
  \<open>url_pairs\<close> the list of its \<open>searchParams\<close> object, \<open>url_fragment\<close> the fragment.
\<close>

record url =
  url_base :: string
  url_query :: "string option"
  url_pairs :: "(string \<times> string) list"
  url_fragment :: "string option"

text \<open>
  The parser \<open>new URL(path, base)\<close> belongs to the platform, not to this repository: the
  model takes it as a parameter of this type, \<open>None\<close> standing for the \<open>TypeError\<close> it
  throws on an invalid URL. Its first argument is the base, its second the path.
\<close>

type_synonym resolver = "string \<Rightarrow> string \<Rightarrow> url option"

subsection \<open>The application/x-www-form-urlencoded serialiser\<close>

definition urlencoded_safe :: "char \<Rightarrow> bool" where
  "urlencoded_safe c =
     (let n = (of_char c :: nat) in
        (48 \<le> n \<and> n \<le> 57) \<or> (65 \<le> n \<and> n \<le> 90) \<or> (97 \<le> n \<and> n \<le> 122)
        \<or> n = 42 \<or> n = 45 \<or> n = 46 \<or> n = 95)"

definition hex_digit :: "nat \<Rightarrow> char" where
  "hex_digit n = ''0123456789ABCDEF'' ! n"

definition urlencoded_byte :: "char \<Rightarrow> string" where
  "urlencoded_byte c =
     (if c = CHR '' '' then ''+''
      else if urlencoded_safe c then [c]
      else [CHR ''%'', hex_digit ((of_char c :: nat) div 16), hex_digit ((of_char c :: nat) mod 16)])"

definition urlencoded :: "string \<Rightarrow> string" where
  "urlencoded s = concat (map urlencoded_byte s)"

definition urlencoded_serialize :: "(string \<times> string) list \<Rightarrow> string" where
  "urlencoded_serialize ps =
     join_with ''&'' (map (\<lambda>(k, v). urlencoded k @ ''='' @ urlencoded v) ps)"

text \<open>
  \<open>url.searchParams.append(key, value)\<close>: the pair joins the list, and the URL's query
  becomes the serialisation of the list (no query when that serialisation is empty).
\<close>

definition searchParams_append :: "string \<Rightarrow> jsval \<Rightarrow> url \<Rightarrow> url" where
  "searchParams_append k v u =
     (let ps = url_pairs u @ [(k, to_string v)]; q = urlencoded_serialize ps
      in u\<lparr>url_pairs := ps, url_query := (if q = [] then None else Some q)\<rparr>)"

definition url_toString :: "url \<Rightarrow> string" where
  "url_toString u =
     url_base u
     @ (case url_query u of None \<Rightarrow> [] | Some q \<Rightarrow> CHR ''?'' # q)
     @ (case url_fragment u of None \<Rightarrow> [] | Some f \<Rightarrow> CHR ''#'' # f)"

subsection \<open>SuperFetch.#buildUrl\<close>

text \<open>The callback of \<open>Object.entries(params).forEach\<close>.\<close>

fun append_entry :: "url \<Rightarrow> string \<times> jsval \<Rightarrow> url" where
  "append_entry u (key, JArr vals) = fold (\<lambda>val u'. searchParams_append key val u') vals u"
| "append_entry u (key, v) = searchParams_append key v u"

definition buildUrl :: "resolver \<Rightarrow> string \<Rightarrow> string \<Rightarrow> jsval \<Rightarrow> string option" where
  "buildUrl resolve root path params =
     (case resolve root path of
        None \<Rightarrow> None
      | Some u \<Rightarrow>
          Some (url_toString
            (if truthy params \<and> typeof params = ''object''
             then fold (\<lambda>e u'. append_entry u' e) (entries params) u
             else u)))"

section \<open>The request client\<close>

subsection \<open>Data\<close>

datatype http_method = GET | POST | PUT | PATCH | DELETE

fun method_str :: "http_method \<Rightarrow> string" where
  "method_str GET = ''GET''"
| "method_str POST = ''POST''"
| "method_str PUT = ''PUT''"
| "method_str PATCH = ''PATCH''"
| "method_str DELETE = ''DELETE''"

text \<open>The two option objects of the class; \<open>None\<close> is a property left out.\<close>

record SuperFetchOptions =
  sfo_token :: "string option"
  sfo_logRequests :: "bool option"
  sfo_timeout :: "int option"
  sfo_retries :: "int option"

record RequestOptions =
  ro_token :: "string option"
  ro_timeout :: "int option"
  ro_log :: "bool option"
  ro_retries :: "int option"
  ro_headers :: "(string \<times> string) list option"

text \<open>The \<open>opts = {}\<close> a verb gets when the caller passes none.\<close>

definition no_opts :: RequestOptions where
  "no_opts = \<lparr>ro_token = None, ro_timeout = None, ro_log = None, ro_retries = None,
     ro_headers = None\<rparr>"

text \<open>
  An \<open>AbortController\<close> is an object on the heap, shared by the registry and by the
  request that holds it: the model names it by a number and keeps the \<open>aborted\<close> flag of
  every controller in the state.
\<close>

type_synonym cid = nat

text \<open>A header object: an own-property list; the value \<open>None\<close> is \<open>undefined\<close>.\<close>

type_synonym headers = "(string \<times> string option) list"

text \<open>
  The \<open>body\<close> handed to \<open>fetch\<close>: the \<open>FormData\<close> or \<open>Blob\<close> itself, the text
  \<open>JSON.stringify(data)\<close> (kept as the value it serialises), or the string.
\<close>

datatype body = Body_FormData | Body_Blob string | Body_JSON jsval | Body_text string

record fetch_call =
  f_url :: string
  f_method :: http_method
  f_headers :: headers
  f_body :: "body option"
  f_signal :: cid

datatype log_status = Status int | ABORT | RETRY | ERROR

text \<open>
  What the client does to the outside, in order: \<open>controller.abort()\<close>, \<open>fetch(...)\<close>,
  and a \<open>console.log\<close> line (verb, path, status, attempt number).
\<close>

datatype effect = Abort cid | Fetch fetch_call | Log http_method string log_status int

text \<open>What the transport answers: a response, or a rejection with a \<open>TypeError\<close>.\<close>

record response =
  ok :: bool
  status :: int
  statusText :: string
  resp_headers :: "(string \<times> string) list"
  body_text :: string
  body_json :: "jsval option"

datatype fetch_result = Response response | NetworkError string

datatype payload = Json jsval | Text string | Blob string | ArrayBuffer string

text \<open>
  The \<open>message\<close> of the caught error: the platform's text for an \<open>AbortError\<close>, the
  message of a network error, \<open>Request failed: ${JSON.stringify(errorDetails)}\<close> with
  its details, or the \<open>SyntaxError\<close> of \<open>response.json()\<close>.
\<close>

datatype message =
    AbortError_message
  | TypeError_message string
  | Request_failed int string "(string \<times> string) list" string
  | SyntaxError_message

text \<open>
  What a call resolves with: the decoded payload, \<open>{result: 'nok', message}\<close>, or
  \<open>undefined\<close> when the loop ends without an attempt.
\<close>

datatype outcome = Data payload | Nok message | Undefined

text \<open>The local variables of \<open>#request\<close> while it is suspended at \<open>await fetch(...)\<close>.\<close>

record frame =
  fr_method :: http_method
  fr_path :: string
  fr_data :: jsval
  fr_opts :: RequestOptions
  fr_url :: string
  fr_controller :: cid
  fr_timeoutMs :: int
  fr_attempts :: int
  fr_attempt :: int

text \<open>
  The promise a verb returns: pending with the suspended frame, fulfilled, or rejected
  (by the \<open>TypeError\<close> of \<open>new URL\<close>, the only throw outside the \<open>try\<close>).
\<close>

datatype promise = Pending frame | Fulfilled outcome | Rejected

text \<open>
  The private fields of the instance, then the heap of controllers (\<open>aborted\<close>,
  \<open>next_controller\<close>), the promises of the calls issued so far and the effects so far.
  \<open>controllers\<close> is the \<open>Map\<close>, in insertion order.
\<close>

record state =
  root :: string
  token :: "string option"
  logRequests :: bool
  defaultTimeout :: int
  defaultRetries :: int
  controllers :: "(string \<times> cid) list"
  aborted :: "cid \<Rightarrow> bool"
  next_controller :: cid
  calls :: "promise list"
  effects :: "effect list"

subsection \<open>The constructor\<close>

datatype error = Invalid_root

text \<open>\<open>/^https?:\/\//.test(s)\<close>: a literal, an optional character, a literal.\<close>

fun match_lit :: "string \<Rightarrow> string \<Rightarrow> string option" where
  "match_lit [] s = Some s"
| "match_lit (c # cs) [] = None"
| "match_lit (c # cs) (d # ds) = (if c = d then match_lit cs ds else None)"

definition regex_test :: "string \<Rightarrow> bool" where
  "regex_test s =
     (case match_lit ''http'' s of
        None \<Rightarrow> False
      | Some r \<Rightarrow>
          (case match_lit ''s'' r of
             Some r' \<Rightarrow> match_lit ''://'' r' \<noteq> None \<or> match_lit ''://'' r \<noteq> None
           | None \<Rightarrow> match_lit ''://'' r \<noteq> None))"

definition new_SuperFetch :: "jsval \<Rightarrow> SuperFetchOptions \<Rightarrow> error + state" where
  "new_SuperFetch root_arg options =
     (if \<not> truthy root_arg \<or> typeof root_arg \<noteq> ''string'' \<or> \<not> regex_test (to_string root_arg)
      then Inl Invalid_root
      else Inr \<lparr>
        root = to_string root_arg,
        token = (if truthy_str (sfo_token options) then sfo_token options else None),
        logRequests = (case sfo_logRequests options of Some b \<Rightarrow> b | None \<Rightarrow> False),
        defaultTimeout = (case sfo_timeout options of Some t \<Rightarrow> (if t \<noteq> 0 then t else 0) | None \<Rightarrow> 0),
        defaultRetries = (case sfo_retries options of Some r \<Rightarrow> (if r \<noteq> 0 then r else 0) | None \<Rightarrow> 0),
        controllers = [],
        aborted = (\<lambda>_. False),
        next_controller = 0,
        calls = [],
        effects = []\<rparr>)"

subsection \<open>The registry of controllers\<close>

definition abort_controller :: "cid \<Rightarrow> state \<Rightarrow> state" where
  "abort_controller c s = s\<lparr>aborted := (aborted s)(c := True), effects := effects s @ [Abort c]\<rparr>"

definition abort :: "string \<Rightarrow> state \<Rightarrow> state" where
  "abort key s =
     (case map_of (controllers s) key of
        None \<Rightarrow> s
      | Some ctrl \<Rightarrow>
          (let s1 = abort_controller ctrl s
           in s1\<lparr>controllers := AList.delete key (controllers s1)\<rparr>))"

definition createAbortController :: "string \<Rightarrow> state \<Rightarrow> cid \<times> state" where
  "createAbortController key s =
     (let s1 = abort key s; controller = next_controller s1
      in (controller,
          s1\<lparr>aborted := (aborted s1)(controller := False),
             next_controller := Suc controller,
             controllers := AList.update key controller (controllers s1)\<rparr>))"

definition abortAll :: "state \<Rightarrow> state" where
  "abortAll s = (fold abort_controller (map snd (controllers s)) s)\<lparr>controllers := []\<rparr>"

definition log :: "http_method \<Rightarrow> string \<Rightarrow> log_status \<Rightarrow> int \<Rightarrow> bool option \<Rightarrow> state \<Rightarrow> state" where
  "log m path st attempt forceLog s =
     (if \<not> logRequests s \<and> forceLog \<noteq> Some True then s
      else s\<lparr>effects := effects s @ [Log m path st (attempt + 1)]\<rparr>)"

subsection \<open>Headers and body of an attempt\<close>

text \<open>Object spread \<open>{...obj, ...src}\<close>: a key already present keeps its place.\<close>

definition spread :: "('k \<times> 'v) list \<Rightarrow> ('k \<times> 'v) list \<Rightarrow> ('k \<times> 'v) list" where
  "spread obj src = fold (\<lambda>(k, v). AList.update k v) src obj"

text \<open>\<open>tok ? { Authorization: `Bearer ${tok}` } : {}\<close>\<close>

definition bearer :: "string option \<Rightarrow> headers" where
  "bearer tok =
     (case tok of
        Some t \<Rightarrow> (if truthy_str tok then [(''Authorization'', Some (''Bearer '' @ t))] else [])
      | None \<Rightarrow> [])"

definition call_headers :: "string option \<Rightarrow> RequestOptions \<Rightarrow> headers" where
  "call_headers tok opts =
     spread (spread (spread [] (bearer tok)) (bearer (ro_token opts)))
       (case ro_headers opts of None \<Rightarrow> [] | Some hs \<Rightarrow> map (\<lambda>(k, v). (k, Some v)) hs)"

text \<open>The chain that picks \<open>contentType\<close> and \<open>body\<close> from the payload.\<close>

definition payload_of :: "jsval \<Rightarrow> string option \<times> body option" where
  "payload_of d =
     (if d = JFormData then (Some ''multipart/form-data'', Some Body_FormData)
      else case d of
        JBlob ty \<Rightarrow> (Some (if ty \<noteq> [] then ty else ''application/octet-stream''), Some (Body_Blob ty))
      | _ \<Rightarrow>
          (if truthy d \<and> typeof d = ''object'' then (Some ''application/json'', Some (Body_JSON d))
           else case d of
             JStr str \<Rightarrow> (Some ''text/plain'', Some (Body_text str))
           | _ \<Rightarrow> (None, None)))"

definition request_headers :: "string option \<Rightarrow> RequestOptions \<Rightarrow> jsval \<Rightarrow> headers" where
  "request_headers tok opts d =
     spread [(''Content-Type'', fst (payload_of d))] (call_headers tok opts)"

subsection \<open>SuperFetch.#request\<close>

text \<open>
  The part of the \<open>try\<close> block up to \<open>await fetch(...)\<close>: headers and body are computed
  from the token the instance holds now, and the call goes out bound to the controller's
  signal. (The timer armed when \<open>timeoutMs > 0\<close> is the \<open>timeout\<close> event below.)
\<close>

definition dispatch :: "frame \<Rightarrow> state \<Rightarrow> state" where
  "dispatch fr s =
     s\<lparr>effects := effects s @
        [Fetch \<lparr>f_url = fr_url fr, f_method = fr_method fr,
                f_headers = request_headers (token s) (fr_opts fr) (fr_data fr),
                f_body = snd (payload_of (fr_data fr)),
                f_signal = fr_controller fr\<rparr>]\<rparr>"

text \<open>
  The head of the \<open>for\<close> loop: while \<open>attempt < attempts\<close> the attempt is dispatched and
  the call suspends; otherwise the function falls off its end and returns \<open>undefined\<close>.
\<close>

definition loop_head :: "frame \<Rightarrow> state \<Rightarrow> promise \<times> state" where
  "loop_head fr s =
     (if fr_attempt fr < fr_attempts fr then (Pending fr, dispatch fr s)
      else (Fulfilled Undefined, s))"

text \<open>The \<open>catch\<close> block, for an error with the given \<open>name\<close> and \<open>message\<close>.\<close>

definition catch :: "frame \<Rightarrow> string \<Rightarrow> message \<Rightarrow> state \<Rightarrow> promise \<times> state" where
  "catch fr name msg s =
     (if name = ''AbortError''
      then (Fulfilled (Nok msg),
            log (fr_method fr) (fr_path fr) ABORT (fr_attempt fr) (ro_log (fr_opts fr)) s)
      else if fr_attempt fr < fr_attempts fr - 1
      then loop_head (fr\<lparr>fr_attempt := fr_attempt fr + 1\<rparr>)
             (log (fr_method fr) (fr_path fr) RETRY (fr_attempt fr) (ro_log (fr_opts fr)) s)
      else (Fulfilled (Nok msg),
            log (fr_method fr) (fr_path fr) ERROR (fr_attempt fr) (ro_log (fr_opts fr)) s))"

text \<open>
  Decoding by the \<open>Content-Type\<close> of the response (\<open>resp_headers\<close> holds the names in
  lower case, as \<open>Headers\<close> does); \<open>response.json()\<close> throws on a body that is not JSON.
\<close>

definition includes_str :: "string \<Rightarrow> string \<Rightarrow> bool" where
  "includes_str str sub = sublist sub str"

definition content_type_includes :: "response \<Rightarrow> string \<Rightarrow> bool" where
  "content_type_includes r sub =
     (case map_of (resp_headers r) ''content-type'' of
        None \<Rightarrow> False
      | Some ct \<Rightarrow> includes_str ct sub)"

definition decode :: "response \<Rightarrow> message + payload" where
  "decode r =
     (if content_type_includes r ''application/json''
      then (case body_json r of None \<Rightarrow> Inl SyntaxError_message | Some v \<Rightarrow> Inr (Json v))
      else if content_type_includes r ''text/plain'' then Inr (Text (body_text r))
      else if content_type_includes r ''application/octet-stream'' then Inr (Blob (body_text r))
      else Inr (ArrayBuffer (body_text r)))"

text \<open>
  The rest of the loop body, run when the awaited transport settles with \<open>r\<close>. The
  transport honours the signal it was given: once the controller is aborted, the await
  rejects with an \<open>AbortError\<close> whatever the network answered.
\<close>

definition resume :: "frame \<Rightarrow> fetch_result \<Rightarrow> state \<Rightarrow> promise \<times> state" where
  "resume fr r s =
     (if aborted s (fr_controller fr) then catch fr ''AbortError'' AbortError_message s
      else case r of
        NetworkError msg \<Rightarrow> catch fr ''TypeError'' (TypeError_message msg) s
      | Response resp \<Rightarrow>
          (if \<not> ok resp
           then catch fr ''Error''
                  (Request_failed (status resp) (statusText resp) (resp_headers resp) (body_text resp)) s
           else case decode resp of
             Inl msg \<Rightarrow> catch fr ''SyntaxError'' msg s
           | Inr responseData \<Rightarrow>
               (Fulfilled (Data responseData),
                log (fr_method fr) (fr_path fr) (Status (status resp)) (fr_attempt fr)
                  (ro_log (fr_opts fr)) s)))"

text \<open>The default parameter \<open>data = null\<close>: it replaces \<open>undefined\<close> only.\<close>

definition default_null :: "jsval \<Rightarrow> jsval" where
  "default_null d = (if d = JUndefined then JNull else d)"

text \<open>
  The synchronous start of \<open>#request\<close>: URL, controller, timeout and attempt budget, then
  the loop up to its first \<open>await\<close>. The promise of the call is appended to \<open>calls\<close>.
\<close>

definition request :: "resolver \<Rightarrow> http_method \<Rightarrow> string \<Rightarrow> jsval \<Rightarrow> RequestOptions \<Rightarrow> state \<Rightarrow> state" where
  "request resolve m path data_arg opts s =
     (let d = default_null data_arg in
      case buildUrl resolve (root s) path (if m = GET then d else JNull) of
        None \<Rightarrow> s\<lparr>calls := calls s @ [Rejected]\<rparr>
      | Some u \<Rightarrow>
          (let (controller, s1) = createAbortController (method_str m @ ''::'' @ u) s;
               timeoutMs = (case ro_timeout opts of Some t \<Rightarrow> t | None \<Rightarrow> defaultTimeout s1);
               attempts = 1 + (case ro_retries opts of Some n \<Rightarrow> n | None \<Rightarrow> defaultRetries s1);
               (p, s2) = loop_head
                 \<lparr>fr_method = m, fr_path = path, fr_data = d, fr_opts = opts, fr_url = u,
                  fr_controller = controller, fr_timeoutMs = timeoutMs,
                  fr_attempts = attempts, fr_attempt = 0\<rparr> s1
           in s2\<lparr>calls := calls s2 @ [p]\<rparr>))"

subsection \<open>The verbs\<close>

definition get :: "resolver \<Rightarrow> string \<Rightarrow> jsval \<Rightarrow> RequestOptions \<Rightarrow> state \<Rightarrow> state" where
  "get resolve path params opts = request resolve GET path params opts"

definition post :: "resolver \<Rightarrow> string \<Rightarrow> jsval \<Rightarrow> RequestOptions \<Rightarrow> state \<Rightarrow> state" where
  "post resolve path d opts = request resolve POST path d opts"

definition put :: "resolver \<Rightarrow> string \<Rightarrow> jsval \<Rightarrow> RequestOptions \<Rightarrow> state \<Rightarrow> state" where
  "put resolve path d opts = request resolve PUT path d opts"

definition patch :: "resolver \<Rightarrow> string \<Rightarrow> jsval \<Rightarrow> RequestOptions \<Rightarrow> state \<Rightarrow> state" where
  "patch resolve path d opts = request resolve PATCH path d opts"

definition delete :: "resolver \<Rightarrow> string \<Rightarrow> RequestOptions \<Rightarrow> state \<Rightarrow> state" where
  "delete resolve path opts = request resolve DELETE path JNull opts"

subsection \<open>The event loop\<close>

text \<open>
  Everything runs on one thread, so a run of the client is a sequence of events, each
  atomic: the caller issues a verb, replaces the token or calls \<open>abortAll\<close>; the transport
  settles the pending attempt of call \<open>i\<close>; the timer of call \<open>i\<close> fires.
\<close>

definition settle :: "nat \<Rightarrow> fetch_result \<Rightarrow> state \<Rightarrow> state" where
  "settle i r s =
     (if i < length (calls s) then
        (case calls s ! i of
           Pending fr \<Rightarrow> (let (p, s1) = resume fr r s in s1\<lparr>calls := (calls s1)[i := p]\<rparr>)
         | _ \<Rightarrow> s)
      else s)"

text \<open>
  \<open>setTimeout(() => controller.abort(), timeoutMs)\<close>, armed only when \<open>timeoutMs > 0\<close>
  and cleared as soon as the attempt settles.
\<close>

definition timeout :: "nat \<Rightarrow> state \<Rightarrow> state" where
  "timeout i s =
     (if i < length (calls s) then
        (case calls s ! i of
           Pending fr \<Rightarrow> (if fr_timeoutMs fr > 0 then abort_controller (fr_controller fr) s else s)
         | _ \<Rightarrow> s)
      else s)"

datatype event =
    Get string jsval RequestOptions
  | Post string jsval RequestOptions
  | Put string jsval RequestOptions
  | Patch string jsval RequestOptions
  | Delete string RequestOptions
  | Set_token "string option"
  | AbortAll
  | Settle nat fetch_result
  | Timeout nat

fun step :: "resolver \<Rightarrow> state \<Rightarrow> event \<Rightarrow> state" where
  "step resolve s (Get path params opts) = get resolve path params opts s"
| "step resolve s (Post path d opts) = post resolve path d opts s"
| "step resolve s (Put path d opts) = put resolve path d opts s"
| "step resolve s (Patch path d opts) = patch resolve path d opts s"
| "step resolve s (Delete path opts) = delete resolve path opts s"
| "step resolve s (Set_token v) = s\<lparr>token := v\<rparr>"
| "step resolve s AbortAll = abortAll s"
| "step resolve s (Settle i r) = settle i r s"
| "step resolve s (Timeout i) = timeout i s"

definition run :: "resolver \<Rightarrow> state \<Rightarrow> event list \<Rightarrow> state" where
  "run resolve s es = foldl (step resolve) s es"

text \<open>The number of \<open>fetch\<close> calls made so far on the signal of controller \<open>c\<close>.\<close>

fun is_fetch_on :: "cid \<Rightarrow> effect \<Rightarrow> bool" where
  "is_fetch_on c (Fetch f) = (f_signal f = c)"
| "is_fetch_on c _ = False"

definition dispatches :: "cid \<Rightarrow> state \<Rightarrow> nat" where
  "dispatches c s = length (filter (is_fetch_on c) (effects s))"

section \<open>Specification\<close>

subsection \<open>Headers by precedence\<close>

definition custom_headers :: "RequestOptions \<Rightarrow> headers" where
  "custom_headers opts =
     (case ro_headers opts of None \<Rightarrow> [] | Some hs \<Rightarrow> map (\<lambda>(k, v). (k, Some v)) hs)"

definition bearer_map :: "string option \<Rightarrow> (string \<rightharpoonup> string option)" where
  "bearer_map tok =
     (case tok of
        None \<Rightarrow> Map.empty
      | Some t \<Rightarrow> if t = [] then Map.empty else [''Authorization'' \<mapsto> Some (''Bearer '' @ t)])"

text \<open>
  The content type of a payload by its kind, as the specification tabulates it: a binary
  blob has its own MIME type or \<open>application/octet-stream\<close>, form data the multipart
  marker, a plain object (an array is an object too) \<open>application/json\<close>, a string
  \<open>text/plain\<close>; anything else is no payload and has no content type.
\<close>

fun content_type_by_kind :: "jsval \<Rightarrow> string option" where
  "content_type_by_kind (JBlob ty) = Some (if ty = [] then ''application/octet-stream'' else ty)"
| "content_type_by_kind JFormData = Some ''multipart/form-data''"
| "content_type_by_kind (JObj _) = Some ''application/json''"
| "content_type_by_kind (JArr _) = Some ''application/json''"
| "content_type_by_kind (JStr _) = Some ''text/plain''"
| "content_type_by_kind JUndefined = None"
| "content_type_by_kind JNull = None"
| "content_type_by_kind (JBool _) = None"
| "content_type_by_kind (JNum _) = None"

text \<open>
  The merge the specification describes, lowest precedence first: computed content type,
  instance token, per-call token, per-call headers (\<open>m ++ m'\<close> lets \<open>m'\<close> win). Names
  are property names, compared as written.
\<close>

definition headers_by_precedence ::
    "string option \<Rightarrow> RequestOptions \<Rightarrow> jsval \<Rightarrow> (string \<rightharpoonup> string option)" where
  "headers_by_precedence tok opts d =
     [''Content-Type'' \<mapsto> content_type_by_kind d] ++ bearer_map tok
       ++ bearer_map (ro_token opts)
       ++ map_of (custom_headers opts)"

subsection \<open>Query parameters of a mapping\<close>

text \<open>One pair per element of an array-valued entry, one pair for any other entry.\<close>

fun entry_pairs :: "string \<times> jsval \<Rightarrow> (string \<times> string) list" where
  "entry_pairs (key, JArr vals) = map (\<lambda>val. (key, to_string val)) vals"
| "entry_pairs (key, v) = [(key, to_string v)]"

definition query_pairs :: "(string \<times> jsval) list \<Rightarrow> (string \<times> string) list" where
  "query_pairs kvs = concat (map entry_pairs kvs)"

text \<open>The URL \<open>u\<close> with the pairs \<open>ps\<close> added to its query.\<close>

definition with_pairs :: "url \<Rightarrow> (string \<times> string) list \<Rightarrow> url" where
  "with_pairs u ps =
     (if ps = [] then u
      else u\<lparr>url_pairs := url_pairs u @ ps,
             url_query := Some (urlencoded_serialize (url_pairs u @ ps))\<rparr>)"

subsection \<open>The base URL\<close>

text \<open>
  An absolute HTTP(S) URL, as a string: the scheme \<open>http\<close> or \<open>https\<close> in either case,
  \<open>://\<close>, and a host, which ends at the first \<open>/\<close>, \<open>?\<close> or \<open>#\<close>, is not empty and holds
  no space and no control character. (The URL standard forbids further characters in a
  host; on the strings examined below it decides as this predicate does.)
\<close>

definition ascii_lower :: "char \<Rightarrow> char" where
  "ascii_lower c =
     (let n = (of_char c :: nat) in if 65 \<le> n \<and> n \<le> 90 then char_of (n + 32) else c)"

definition host_of :: "string \<Rightarrow> string" where
  "host_of rest = takeWhile (\<lambda>c. c \<notin> set ''/?#'') rest"

definition is_absolute_http_url :: "jsval \<Rightarrow> bool" where
  "is_absolute_http_url v =
     (case v of
        JStr str \<Rightarrow>
          (let low = map ascii_lower str;
               host = (if prefix ''http://'' low then host_of (drop 7 str)
                       else if prefix ''https://'' low then host_of (drop 8 str)
                       else [])
           in host \<noteq> [] \<and> list_all (\<lambda>c. 32 < (of_char c :: nat) \<and> (of_char c :: nat) \<noteq> 127) host)
      | _ \<Rightarrow> False)"

text \<open>
  What the amended claim C4 says of the base instead: a string that begins with
  \<open>http://\<close> or \<open>https://\<close>, in lower case, whatever follows.
\<close>

definition begins_with_http_scheme :: "jsval \<Rightarrow> bool" where
  "begins_with_http_scheme v =
     (case v of
        JStr str \<Rightarrow> prefix ''http://'' str \<or> prefix ''https://'' str
      | _ \<Rightarrow> False)"

subsection \<open>Outcomes of attempts and calls\<close>

text \<open>An attempt that fails with a network error or a non-success HTTP status.\<close>

fun fails :: "fetch_result \<Rightarrow> bool" where
  "fails (NetworkError _) = True"
| "fails (Response resp) = (\<not> ok resp)"

text \<open>A call that has resolved with a decoded payload or with \<open>{result: 'nok', message}\<close>.\<close>

fun settled :: "promise \<Rightarrow> bool" where
  "settled (Fulfilled (Data _)) = True"
| "settled (Fulfilled (Nok _)) = True"
| "settled _ = False"

fun is_pending :: "promise \<Rightarrow> bool" where
  "is_pending (Pending _) = True"
| "is_pending _ = False"

text \<open>The registry key of a suspended call.\<close>

definition key_of :: "frame \<Rightarrow> string" where
  "key_of fr = method_str (fr_method fr) @ ''::'' @ fr_url fr"

text \<open>
  The registry key \<open>method::fullUrl\<close> of a call about to be issued (none when its URL
  cannot be built), and the key of the call an event issues (none for other events).
\<close>

definition request_key :: "resolver \<Rightarrow> state \<Rightarrow> http_method \<Rightarrow> string \<Rightarrow> jsval \<Rightarrow> string option" where
  "request_key resolve s m path d =
     map_option (\<lambda>u. method_str m @ ''::'' @ u)
       (buildUrl resolve (root s) path (if m = GET then default_null d else JNull))"

fun call_key :: "resolver \<Rightarrow> state \<Rightarrow> event \<Rightarrow> string option" where
  "call_key resolve s (Get path params opts) = request_key resolve s GET path params"
| "call_key resolve s (Post path d opts) = request_key resolve s POST path d"
| "call_key resolve s (Put path d opts) = request_key resolve s PUT path d"
| "call_key resolve s (Patch path d opts) = request_key resolve s PATCH path d"
| "call_key resolve s (Delete path opts) = request_key resolve s DELETE path JNull"
| "call_key resolve s _ = None"

text \<open>The attempt budget \<open>1 + (opts.retries ?? this.#defaultRetries)\<close>.\<close>

definition attempts_of :: "RequestOptions \<Rightarrow> state \<Rightarrow> int" where
  "attempts_of opts s = 1 + (case ro_retries opts of Some n \<Rightarrow> n | None \<Rightarrow> defaultRetries s)"

text \<open>The frame with which a call starts, once its URL \<open>u\<close> is built.\<close>

definition first_frame ::
    "http_method \<Rightarrow> string \<Rightarrow> jsval \<Rightarrow> RequestOptions \<Rightarrow> string \<Rightarrow> state \<Rightarrow> frame" where
  "first_frame m path d opts u s =
     \<lparr>fr_method = m, fr_path = path, fr_data = default_null d, fr_opts = opts, fr_url = u,
      fr_controller = next_controller s,
      fr_timeoutMs = (case ro_timeout opts of Some t \<Rightarrow> t | None \<Rightarrow> defaultTimeout s),
      fr_attempts = attempts_of opts s, fr_attempt = 0\<rparr>"

subsection \<open>Well-formed states\<close>

text \<open>
  What every state the client can reach satisfies: controllers in the registry and in
  suspended calls have been allocated; a suspended call's controller is still registered
  under the call's key unless it has been aborted; and every abort is in the effects.
\<close>

fun pending_ok :: "state \<Rightarrow> promise \<Rightarrow> bool" where
  "pending_ok s (Pending fr) =
     (fr_controller fr < next_controller s
      \<and> (aborted s (fr_controller fr)
         \<or> map_of (controllers s) (key_of fr) = Some (fr_controller fr)))"
| "pending_ok s _ = True"

definition wf_state :: "state \<Rightarrow> bool" where
  "wf_state s =
     ((\<forall>kc \<in> set (controllers s). snd kc < next_controller s)
      \<and> (\<forall>p \<in> set (calls s). pending_ok s p)
      \<and> (\<forall>c \<in> set [0..<next_controller s]. aborted s c \<longrightarrow> Abort c \<in> set (effects s)))"

subsection \<open>A concrete client\<close>

text \<open>
  A resolver for the concrete runs below. It gives the resolution of \<open>/users\<close> against
  \<open>https://api.test\<close> as the URL standard does, and refuses every other pair, among
  them the base \<open>http://\<close>, which has no host and which \<open>new URL\<close> refuses too. Then the
  client \<open>new SuperFetch('https://api.test', {token: 'abc', retries: 2})\<close>.
\<close>

definition example_resolve :: resolver where
  "example_resolve base path =
     (if base = ''https://api.test'' \<and> path = ''/users''
      then Some \<lparr>url_base = ''https://api.test/users'', url_query = None, url_pairs = [],
                 url_fragment = None\<rparr>
      else None)"

definition example_options :: SuperFetchOptions where
  "example_options =
     \<lparr>sfo_token = Some ''abc'', sfo_logRequests = None, sfo_timeout = None, sfo_retries = Some 2\<rparr>"

definition example_client :: state where
  "example_client =
     \<lparr>root = ''https://api.test'', token = Some ''abc'', logRequests = False,
      defaultTimeout = 0, defaultRetries = 2, controllers = [], aborted = (\<lambda>_. False),
      next_controller = 0, calls = [], effects = []\<rparr>"

definition example_params :: jsval where
  "example_params = JObj [(''id'', JArr [JNum 1, JNum 2])]"

definition example_response :: response where
  "example_response =
     \<lparr>ok = True, status = 200, statusText = ''OK'',
      resp_headers = [(''content-type'', ''application/json'')],
      body_text = ''[]'', body_json = Some (JArr [])\<rparr>"

definition example_call_opts :: RequestOptions where
  "example_call_opts =
     \<lparr>ro_token = Some ''xyz'', ro_timeout = Some 100, ro_log = None, ro_retries = Some 3,
      ro_headers = Some [(''Content-Type'', ''text/csv'')]\<rparr>"

definition example_frame :: frame where
  "example_frame =
     \<lparr>fr_method = POST, fr_path = ''/users'', fr_data = JStr ''a,b'', fr_opts = example_call_opts,
      fr_url = ''https://api.test/users'', fr_controller = 0, fr_timeoutMs = 100,
      fr_attempts = 4, fr_attempt = 0\<rparr>"

text \<open>
  Per-call headers that name the content type in lower case, a frame that posts a string
  with no per-call headers, and the client the constructor gives for the base \<open>http://\<close>.
\<close>

definition example_lowercase_opts :: RequestOptions where
  "example_lowercase_opts = no_opts\<lparr>ro_headers := Some [(''content-type'', ''text/csv'')]\<rparr>"

definition example_plain_frame :: frame where
  "example_plain_frame =
     \<lparr>fr_method = POST, fr_path = ''/users'', fr_data = JStr ''a,b'', fr_opts = no_opts,
      fr_url = ''https://api.test/users'', fr_controller = 0, fr_timeoutMs = 0,
      fr_attempts = 1, fr_attempt = 0\<rparr>"

definition example_hostless :: state where
  "example_hostless = example_client\<lparr>root := ''http://''\<rparr>"

text \<open>The client after \<open>get('/users', {id: [1, 2]})\<close>, its call still pending.\<close>

definition example_registered :: state where
  "example_registered = get example_resolve ''/users'' example_params no_opts example_client"

definition example_get_frame :: frame where
  "example_get_frame =
     first_frame GET ''/users'' example_params no_opts ''https://api.test/users?id=1&id=2''
       example_client"

text \<open>A server error, and a call with a timeout of 100 ms and three retries.\<close>

definition example_failure :: response where
  "example_failure =
     \<lparr>ok = False, status = 500, statusText = ''Internal Server Error'', resp_headers = [],
      body_text = ''oops'', body_json = None\<rparr>"

definition example_timed_opts :: RequestOptions where
  "example_timed_opts = no_opts\<lparr>ro_timeout := Some 100, ro_retries := Some 3\<rparr>"

definition example_timed :: state where
  "example_timed = delete example_resolve ''/users'' example_timed_opts example_client"

definition example_timed_frame :: frame where
  "example_timed_frame =
     first_frame DELETE ''/users'' JNull example_timed_opts ''https://api.test/users''
       example_client"

subsection \<open>Cancelled calls\<close>

text \<open>
  Call \<open>i\<close>, started with frame \<open>fr\<close>, has had its controller aborted: it is still
  suspended on that attempt, or it has resolved with the cancellation outcome.
\<close>

definition cancelled :: "nat \<Rightarrow> frame \<Rightarrow> state \<Rightarrow> bool" where
  "cancelled i fr s =
     (i < length (calls s) \<and> fr_controller fr < next_controller s
      \<and> aborted s (fr_controller fr)
      \<and> (calls s ! i = Pending fr \<or> calls s ! i = Fulfilled (Nok AbortError_message)))"

section \<open>Properties\<close>

subsection \<open>Object spread\<close>


lemma map_of_spread:
  "distinct (map fst src) \<Longrightarrow> map_of (spread obj src) = map_of obj ++ map_of src"
proof (induction src arbitrary: obj)
  case Nil
  show ?case by (simp add: spread_def)
next
  case (Cons e src)
  obtain k v where e: "e = (k, v)" by (cases e)
  from Cons.prems have k: "k \<notin> dom (map_of src)" and d: "distinct (map fst src)"
    by (auto simp: e dom_map_of_conv_image_fst)
  have "spread obj (e # src) = spread (AList.update k v obj) src"
    by (simp add: spread_def e)
  then have "map_of (spread obj (e # src)) = map_of (AList.update k v obj) ++ map_of src"
    using Cons.IH [OF d] by simp
  also have "\<dots> = (map_of obj ++ map_of src)(k \<mapsto> v)"
    using k by (simp add: update_conv' map_add_upd_left)
  also have "\<dots> = map_of obj ++ map_of (e # src)"
    by (simp only: e map_of.simps fst_conv snd_conv map_add_upd)
  finally show ?case .
qed

lemma distinct_spread: "distinct (map fst obj) \<Longrightarrow> distinct (map fst (spread obj src))"
proof (induction src arbitrary: obj)
  case Nil
  then show ?case by (simp add: spread_def)
next
  case (Cons e src)
  have "spread obj (e # src) = spread (AList.update (fst e) (snd e) obj) src"
    by (simp add: spread_def split_def)
  then show ?case using Cons by (simp add: distinct_update)
qed

lemma map_of_bearer: "map_of (bearer tok) = bearer_map tok"
  by (cases tok) (auto simp: bearer_def bearer_map_def)

lemma distinct_bearer: "distinct (map fst (bearer tok))"
  by (cases tok) (auto simp: bearer_def)

lemma call_headers_custom:
  "call_headers tok opts
     = spread (spread (spread [] (bearer tok)) (bearer (ro_token opts))) (custom_headers opts)"
  by (simp add: call_headers_def custom_headers_def)

lemma distinct_call_headers: "distinct (map fst (call_headers tok opts))"
  unfolding call_headers_def by (intro distinct_spread) simp

lemma map_of_call_headers:
  "distinct (map fst (custom_headers opts)) \<Longrightarrow>
   map_of (call_headers tok opts)
     = bearer_map tok ++ bearer_map (ro_token opts) ++ map_of (custom_headers opts)"
  by (simp add: call_headers_custom map_of_spread distinct_bearer map_of_bearer)

lemma payload_of_kind: "fst (payload_of d) = content_type_by_kind d"
  by (cases d) (simp_all add: payload_of_def)

lemma map_of_request_headers:
  "distinct (map fst (custom_headers opts)) \<Longrightarrow>
   map_of (request_headers tok opts d) = headers_by_precedence tok opts d"
  by (simp add: request_headers_def headers_by_precedence_def map_of_spread payload_of_kind
      distinct_call_headers map_of_call_headers)

subsection \<open>Query serialisation\<close>

lemma join_with_nonempty:
  "xs \<noteq> [] \<Longrightarrow> \<forall>x \<in> set xs. x \<noteq> [] \<Longrightarrow> join_with sep xs \<noteq> []"
  by (induction sep xs rule: join_with.induct) auto

lemma urlencoded_serialize_nonempty: "ps \<noteq> [] \<Longrightarrow> urlencoded_serialize ps \<noteq> []"
  unfolding urlencoded_serialize_def
  by (rule join_with_nonempty) (auto simp: split_def)

lemma searchParams_append_with_pairs:
  "searchParams_append k v u = with_pairs u [(k, to_string v)]"
  by (simp add: searchParams_append_def with_pairs_def Let_def urlencoded_serialize_nonempty)

lemma with_pairs_append: "with_pairs (with_pairs u ps) qs = with_pairs u (ps @ qs)"
  by (simp add: with_pairs_def)

lemma fold_searchParams_append:
  "fold (\<lambda>val u'. searchParams_append key val u') vals u
     = with_pairs u (map (\<lambda>val. (key, to_string val)) vals)"
proof (induction vals arbitrary: u)
  case Nil
  show ?case by (simp add: with_pairs_def)
next
  case (Cons v vals)
  have "fold (\<lambda>val u'. searchParams_append key val u') (v # vals) u
          = with_pairs (searchParams_append key v u) (map (\<lambda>val. (key, to_string val)) vals)"
    by (simp only: fold_simps Cons.IH)
  then show ?case
    by (simp add: searchParams_append_with_pairs with_pairs_append)
qed

lemma append_entry_with_pairs: "append_entry u e = with_pairs u (entry_pairs e)"
proof (cases e)
  case (Pair key v)
  show ?thesis unfolding Pair
    by (cases v) (simp_all add: fold_searchParams_append searchParams_append_with_pairs)
qed

lemma fold_append_entry:
  "fold (\<lambda>e u'. append_entry u' e) kvs u = with_pairs u (query_pairs kvs)"
proof (induction kvs arbitrary: u)
  case Nil
  show ?case by (simp add: with_pairs_def query_pairs_def)
next
  case (Cons e kvs)
  have "fold (\<lambda>e u'. append_entry u' e) (e # kvs) u
          = with_pairs (append_entry u e) (query_pairs kvs)"
    by (simp only: fold_simps Cons.IH)
  then have "fold (\<lambda>e u'. append_entry u' e) (e # kvs) u
          = with_pairs (with_pairs u (entry_pairs e)) (query_pairs kvs)"
    by (simp only: append_entry_with_pairs)
  then show ?case by (simp add: with_pairs_append query_pairs_def)
qed

lemma hex_digit_safe: "n < 16 \<Longrightarrow> urlencoded_safe (hex_digit n)"
proof -
  have "list_all (\<lambda>n. urlencoded_safe (hex_digit n)) [0..<16]" by code_simp
  moreover assume "n < 16"
  ultimately show ?thesis by (simp add: list_all_iff)
qed

lemma of_char_bound: "(of_char c :: nat) < 256"
  by (metis of_char_mod_256 mod_less_divisor zero_less_numeral)

lemma urlencoded_byte_chars:
  "x \<in> set (urlencoded_byte c) \<Longrightarrow> urlencoded_safe x \<or> x = CHR ''+'' \<or> x = CHR ''%''"
proof -
  have "(of_char c :: nat) div 16 < 16"
    using of_char_bound [of c] by (simp add: less_mult_imp_div_less)
  moreover have "(of_char c :: nat) mod 16 < 16" by simp
  moreover assume "x \<in> set (urlencoded_byte c)"
  ultimately show ?thesis
    by (auto simp: urlencoded_byte_def hex_digit_safe split: if_splits)
qed

lemma urlencoded_chars:
  "x \<in> set (urlencoded s) \<Longrightarrow> urlencoded_safe x \<or> x = CHR ''+'' \<or> x = CHR ''%''"
  by (auto simp: urlencoded_def dest: urlencoded_byte_chars)

subsection \<open>C7: URL construction\<close>

text \<open>
  C7. For a base and a path that the URL standard resolves to \<open>u\<close>, the URL built for a
  parameter mapping is \<open>u\<close> with one query pair per element of every array-valued entry
  and one pair for every other entry, in order, serialised as \<open>key=value\<close> joined by
  \<open>&\<close>; without parameters it is the resolution itself. Encoded keys and values
  consist of unreserved characters, \<open>+\<close> and percent escapes only. In particular
  \<open>/users\<close> with \<open>{id: [1, 2]}\<close> against \<open>https://api.test\<close> gives
  \<open>https://api.test/users?id=1&id=2\<close>.
\<close>

theorem buildUrl_resolves_and_serialises:
  "(resolve base path = Some u \<longrightarrow>
      buildUrl resolve base path (JObj kvs) = Some (url_toString (with_pairs u (query_pairs kvs)))
      \<and> buildUrl resolve base path JNull = Some (url_toString u))
   \<and> (\<forall>c \<in> set (urlencoded str). urlencoded_safe c \<or> c = CHR ''+'' \<or> c = CHR ''%'')
   \<and> (resolve ''https://api.test'' ''/users''
         = Some \<lparr>url_base = ''https://api.test/users'', url_query = None, url_pairs = [],
                 url_fragment = None\<rparr> \<longrightarrow>
       buildUrl resolve ''https://api.test'' ''/users'' (JObj [(''id'', JArr [JNum 1, JNum 2])])
         = Some ''https://api.test/users?id=1&id=2'')"
proof (intro conjI impI ballI)
  assume "resolve base path = Some u"
  then show "buildUrl resolve base path (JObj kvs)
               = Some (url_toString (with_pairs u (query_pairs kvs)))"
    by (simp add: buildUrl_def fold_append_entry)
next
  assume "resolve base path = Some u"
  then show "buildUrl resolve base path JNull = Some (url_toString u)"
    by (simp add: buildUrl_def)
next
  fix c assume "c \<in> set (urlencoded str)"
  then show "urlencoded_safe c \<or> c = CHR ''+'' \<or> c = CHR ''%''" by (rule urlencoded_chars)
next
  assume r: "resolve ''https://api.test'' ''/users''
         = Some \<lparr>url_base = ''https://api.test/users'', url_query = None, url_pairs = [],
                 url_fragment = None\<rparr>"
  have "dec_nat 1 = ''1''" "dec_nat 2 = ''2''" by (simp_all add: dec_nat.simps)
  then show "buildUrl resolve ''https://api.test'' ''/users'' (JObj [(''id'', JArr [JNum 1, JNum 2])])
         = Some ''https://api.test/users?id=1&id=2''"
    by (simp add: buildUrl_def r searchParams_append_def url_toString_def urlencoded_serialize_def
        urlencoded_def urlencoded_byte_def urlencoded_safe_def dec_int_def)
qed

theorem buildUrl_resolves_and_serialises_witness:
  "example_resolve ''https://api.test'' ''/users''
     = Some \<lparr>url_base = ''https://api.test/users'', url_query = None, url_pairs = [],
             url_fragment = None\<rparr>
   \<and> buildUrl example_resolve ''https://api.test'' ''/users'' (JObj [(''q'', JStr ''a b&c'')])
       = Some ''https://api.test/users?q=a+b%26c''
   \<and> buildUrl example_resolve ''https://api.test'' ''/users'' (JObj [(''id'', JArr [JNum 1, JNum 2])])
       = Some ''https://api.test/users?id=1&id=2''
   \<and> CHR ''%'' \<in> set (urlencoded ''a b&c'')"
proof -
  let ?u = "\<lparr>url_base = ''https://api.test/users'', url_query = None, url_pairs = [],
             url_fragment = None\<rparr>"
  have r: "example_resolve ''https://api.test'' ''/users'' = Some ?u"
    by (simp add: example_resolve_def)
  have q: "url_toString (with_pairs ?u (query_pairs [(''q'', JStr ''a b&c'')]))
             = ''https://api.test/users?q=a+b%26c''"
    by (simp add: url_toString_def with_pairs_def query_pairs_def urlencoded_serialize_def
        urlencoded_def urlencoded_byte_def urlencoded_safe_def hex_digit_def)
  have e: "CHR ''%'' \<in> set (urlencoded ''a b&c'')"
    by (simp add: urlencoded_def urlencoded_byte_def urlencoded_safe_def hex_digit_def)
  show ?thesis
    using buildUrl_resolves_and_serialises
      [of example_resolve "''https://api.test''" "''/users''" ?u "[(''q'', JStr ''a b&c'')]"
          "''a b&c''"]
    by (simp add: r q e)
qed

subsection \<open>C9: header precedence\<close>

text \<open>
  The claim C9 says that explicit per-call headers override the computed Content-Type.
  The code merges header objects by property name as written: for a POST of an object
  with the per-call header \<open>content-type: text/csv\<close>, the headers handed to \<open>fetch\<close> still
  hold the computed \<open>Content-Type: application/json\<close>, with the per-call header beside it.
\<close>

theorem lowercase_content_type_does_not_override:
  "effects (post example_resolve ''/users'' example_params example_lowercase_opts example_client)
     = [Fetch \<lparr>f_url = ''https://api.test/users'', f_method = POST,
          f_headers = [(''Content-Type'', Some ''application/json''),
                       (''Authorization'', Some ''Bearer abc''),
                       (''content-type'', Some ''text/csv'')],
          f_body = Some (Body_JSON example_params), f_signal = 0\<rparr>]"
  by code_simp

text \<open>
  C9, amended. For a call that is not a GET given parameters of a payload kind (an
  object, an array or a string), the header object of the dispatched request is the
  merge by exact property name, in increasing precedence, of
  the content type computed for the kind of the payload (\<open>undefined\<close> when there is no
  payload), the instance token's \<open>Authorization\<close> header, the per-call token's
  \<open>Authorization\<close> header and the per-call headers. So the computed content type is sent
  unless a per-call header is named exactly \<open>Content-Type\<close>, which then replaces it; a
  per-call token replaces the instance token's header; and a per-call header of any other
  name, a differently cased one included, is sent as given beside them. (The per-call
  headers are an object: their names are distinct.)
\<close>

theorem headers_merge_by_exact_name:
  assumes "distinct (map fst (custom_headers (fr_opts fr)))"
    and "fr_method fr = GET \<longrightarrow> content_type_by_kind (fr_data fr) = None"
  shows "\<exists>f. effects (dispatch fr s) = effects s @ [Fetch f]
     \<and> map_of (f_headers f) = headers_by_precedence (token s) (fr_opts fr) (fr_data fr)
     \<and> (''Content-Type'' \<notin> fst ` set (custom_headers (fr_opts fr)) \<longrightarrow>
          map_of (f_headers f) ''Content-Type'' = Some (content_type_by_kind (fr_data fr)))
     \<and> (\<forall>v. map_of (custom_headers (fr_opts fr)) ''Content-Type'' = Some v \<longrightarrow>
          map_of (f_headers f) ''Content-Type'' = Some v)
     \<and> (\<forall>t. ro_token (fr_opts fr) = Some t \<and> t \<noteq> []
            \<and> ''Authorization'' \<notin> fst ` set (custom_headers (fr_opts fr)) \<longrightarrow>
          map_of (f_headers f) ''Authorization'' = Some (Some (''Bearer '' @ t)))
     \<and> (\<forall>name. name \<noteq> ''Content-Type'' \<and> name \<noteq> ''Authorization'' \<longrightarrow>
          map_of (f_headers f) name = map_of (custom_headers (fr_opts fr)) name)"
proof -
  let ?hs = "request_headers (token s) (fr_opts fr) (fr_data fr)"
  let ?c = "map_of (custom_headers (fr_opts fr))"
  have m: "map_of ?hs = headers_by_precedence (token s) (fr_opts fr) (fr_data fr)"
    using assms(1) by (rule map_of_request_headers)
  have none: "?c name = None" if "name \<notin> fst ` set (custom_headers (fr_opts fr))" for name
    using that by (simp add: map_of_eq_None_iff)
  have a: "map_of ?hs ''Content-Type'' = Some (content_type_by_kind (fr_data fr))"
    if "''Content-Type'' \<notin> fst ` set (custom_headers (fr_opts fr))"
    using none [OF that]
    by (simp add: m headers_by_precedence_def map_add_def bearer_map_def split: option.splits)
  have b: "map_of ?hs ''Content-Type'' = Some v" if "?c ''Content-Type'' = Some v" for v
    using that by (simp add: m headers_by_precedence_def map_add_def)
  have c: "map_of ?hs ''Authorization'' = Some (Some (''Bearer '' @ t))"
    if "ro_token (fr_opts fr) = Some t \<and> t \<noteq> []
            \<and> ''Authorization'' \<notin> fst ` set (custom_headers (fr_opts fr))" for t
    using that none [of "''Authorization''"]
    by (simp add: m headers_by_precedence_def map_add_def bearer_map_def)
  have d: "map_of ?hs name = ?c name" if "name \<noteq> ''Content-Type'' \<and> name \<noteq> ''Authorization''"
    for name
    using that
    by (auto simp: m headers_by_precedence_def map_add_def bearer_map_def split: option.splits)
  show ?thesis
    by (rule exI [of _ "\<lparr>f_url = fr_url fr, f_method = fr_method fr, f_headers = ?hs,
          f_body = snd (payload_of (fr_data fr)), f_signal = fr_controller fr\<rparr>"])
      (use m a b c d in \<open>auto simp: dispatch_def\<close>)
qed


theorem headers_merge_by_exact_name_witness:
  "distinct (map fst (custom_headers (fr_opts example_plain_frame)))
   \<and> fr_method example_plain_frame = POST
   \<and> ''Content-Type'' \<notin> fst ` set (custom_headers (fr_opts example_plain_frame))
   \<and> (\<exists>f. effects (dispatch example_plain_frame example_client)
             = effects example_client @ [Fetch f]
         \<and> map_of (f_headers f) ''Content-Type'' = Some (Some ''text/plain'')
         \<and> map_of (f_headers f) ''content-type'' = None)
   \<and> distinct (map fst (custom_headers (fr_opts example_frame)))
   \<and> fr_method example_frame = POST
   \<and> map_of (custom_headers (fr_opts example_frame)) ''Content-Type'' = Some (Some ''text/csv'')
   \<and> ro_token (fr_opts example_frame) = Some ''xyz''
   \<and> ''Authorization'' \<notin> fst ` set (custom_headers (fr_opts example_frame))
   \<and> (\<exists>f. effects (dispatch example_frame example_client) = effects example_client @ [Fetch f]
         \<and> map_of (f_headers f) ''Content-Type'' = Some (Some ''text/csv'')
         \<and> map_of (f_headers f) ''Authorization'' = Some (Some ''Bearer xyz''))"
proof -
  have p: "distinct (map fst (custom_headers (fr_opts example_plain_frame)))"
    "fr_method example_plain_frame = POST"
    "''Content-Type'' \<notin> fst ` set (custom_headers (fr_opts example_plain_frame))"
    "content_type_by_kind (fr_data example_plain_frame) = Some ''text/plain''"
    "map_of (custom_headers (fr_opts example_plain_frame)) ''content-type'' = None"
    by (simp_all add: custom_headers_def example_plain_frame_def no_opts_def)
  have q: "distinct (map fst (custom_headers (fr_opts example_frame)))"
    "fr_method example_frame = POST"
    "map_of (custom_headers (fr_opts example_frame)) ''Content-Type'' = Some (Some ''text/csv'')"
    "ro_token (fr_opts example_frame) = Some ''xyz''"
    "''Authorization'' \<notin> fst ` set (custom_headers (fr_opts example_frame))"
    by (simp_all add: custom_headers_def example_frame_def example_call_opts_def)
  have pg: "fr_method example_plain_frame = GET \<longrightarrow>
      content_type_by_kind (fr_data example_plain_frame) = None"
    by (simp add: p(2))
  have qg: "fr_method example_frame = GET \<longrightarrow> content_type_by_kind (fr_data example_frame) = None"
    by (simp add: q(2))
  from headers_merge_by_exact_name [OF p(1) pg, of example_client] p(3,4,5)
  have a: "\<exists>f. effects (dispatch example_plain_frame example_client)
             = effects example_client @ [Fetch f]
         \<and> map_of (f_headers f) ''Content-Type'' = Some (Some ''text/plain'')
         \<and> map_of (f_headers f) ''content-type'' = None"
    by auto
  from headers_merge_by_exact_name [OF q(1) qg, of example_client] q(3,4,5)
  have b: "\<exists>f. effects (dispatch example_frame example_client) = effects example_client @ [Fetch f]
         \<and> map_of (f_headers f) ''Content-Type'' = Some (Some ''text/csv'')
         \<and> map_of (f_headers f) ''Authorization'' = Some (Some ''Bearer xyz'')"
    by auto
  from p(1,2,3) a q b show ?thesis by blast
qed

subsection \<open>C10: falsy tokens\<close>



subsection \<open>Effects of the primitives\<close>

lemma log_fields [simp]:
  "calls (log m p st a f s) = calls s"
  "controllers (log m p st a f s) = controllers s"
  "aborted (log m p st a f s) = aborted s"
  "next_controller (log m p st a f s) = next_controller s"
  "token (log m p st a f s) = token s"
  by (simp_all add: log_def)

lemma log_effects: "\<exists>es. effects (log m p st a f s) = effects s @ es \<and> (\<forall>e \<in> set es. \<exists>m p st a. e = Log m p st a)"
  by (simp add: log_def)

lemma dispatch_fields [simp]:
  "calls (dispatch fr s) = calls s"
  "controllers (dispatch fr s) = controllers s"
  "aborted (dispatch fr s) = aborted s"
  "next_controller (dispatch fr s) = next_controller s"
  "token (dispatch fr s) = token s"
  by (simp_all add: dispatch_def)

lemma dispatches_log [simp]: "dispatches c (log m p st a f s) = dispatches c s"
  by (simp add: dispatches_def log_def)

lemma dispatches_dispatch [simp]:
  "dispatches c (dispatch fr s) = dispatches c s + (if fr_controller fr = c then 1 else 0)"
  by (simp add: dispatches_def dispatch_def)

lemma effects_log_mono: "set (effects s) \<subseteq> set (effects (log m p st a f s))"
  by (auto simp: log_def)

lemma effects_dispatch_mono: "set (effects s) \<subseteq> set (effects (dispatch fr s))"
  by (auto simp add: dispatch_def)

lemma abort_controller_fields [simp]:
  "calls (abort_controller c s) = calls s"
  "controllers (abort_controller c s) = controllers s"
  "aborted (abort_controller c s) = (aborted s)(c := True)"
  "next_controller (abort_controller c s) = next_controller s"
  "token (abort_controller c s) = token s"
  "root (abort_controller c s) = root s"
  "defaultRetries (abort_controller c s) = defaultRetries s"
  "defaultTimeout (abort_controller c s) = defaultTimeout s"
  "effects (abort_controller c s) = effects s @ [Abort c]"
  by (simp_all add: abort_controller_def)

subsection \<open>The loop\<close>

lemma loop_head_fields [simp]:
  "calls (snd (loop_head fr s)) = calls s"
  "controllers (snd (loop_head fr s)) = controllers s"
  "aborted (snd (loop_head fr s)) = aborted s"
  "next_controller (snd (loop_head fr s)) = next_controller s"
  "token (snd (loop_head fr s)) = token s"
  by (simp_all add: loop_head_def)

lemma catch_fields [simp]:
  "calls (snd (catch fr name msg s)) = calls s"
  "controllers (snd (catch fr name msg s)) = controllers s"
  "aborted (snd (catch fr name msg s)) = aborted s"
  "next_controller (snd (catch fr name msg s)) = next_controller s"
  "token (snd (catch fr name msg s)) = token s"
  by (simp_all add: catch_def)

lemma resume_fields [simp]:
  "calls (snd (resume fr r s)) = calls s"
  "controllers (snd (resume fr r s)) = controllers s"
  "aborted (snd (resume fr r s)) = aborted s"
  "next_controller (snd (resume fr r s)) = next_controller s"
  "token (snd (resume fr r s)) = token s"
  by (simp_all add: resume_def split: fetch_result.splits sum.splits)

lemma effects_loop_head_mono: "set (effects s) \<subseteq> set (effects (snd (loop_head fr s)))"
  using effects_dispatch_mono by (simp add: loop_head_def)

lemma effects_catch_mono: "set (effects s) \<subseteq> set (effects (snd (catch fr name msg s)))"
  by (auto simp: catch_def loop_head_def log_def dispatch_def)

lemma effects_resume_mono: "set (effects s) \<subseteq> set (effects (snd (resume fr r s)))"
  by (auto simp: resume_def catch_def loop_head_def log_def dispatch_def
      split: fetch_result.splits sum.splits)

text \<open>What the promise of a resumed call can be.\<close>

lemma catch_abort:
  "fst (catch fr ''AbortError'' msg s) = Fulfilled (Nok msg)"
  "dispatches c (snd (catch fr ''AbortError'' msg s)) = dispatches c s"
  by (simp_all add: catch_def)

lemma catch_retry:
  assumes "name \<noteq> ''AbortError''" and "fr_attempt fr < fr_attempts fr - 1"
  shows "fst (catch fr name msg s) = Pending (fr\<lparr>fr_attempt := fr_attempt fr + 1\<rparr>)"
    and "dispatches c (snd (catch fr name msg s))
           = dispatches c s + (if fr_controller fr = c then 1 else 0)"
  using assms by (simp_all add: catch_def loop_head_def)

lemma catch_last:
  assumes "name \<noteq> ''AbortError''" and "\<not> fr_attempt fr < fr_attempts fr - 1"
  shows "fst (catch fr name msg s) = Fulfilled (Nok msg)"
    and "dispatches c (snd (catch fr name msg s)) = dispatches c s"
  using assms by (simp_all add: catch_def)

lemma resume_aborted:
  assumes "aborted s (fr_controller fr)"
  shows "fst (resume fr r s) = Fulfilled (Nok AbortError_message)"
    and "dispatches c (snd (resume fr r s)) = dispatches c s"
  using assms by (simp_all add: resume_def catch_abort)

lemma resume_fails_retry:
  assumes "\<not> aborted s (fr_controller fr)" and "fails r" and "fr_attempt fr < fr_attempts fr - 1"
  shows "fst (resume fr r s) = Pending (fr\<lparr>fr_attempt := fr_attempt fr + 1\<rparr>)"
    and "dispatches c (snd (resume fr r s))
           = dispatches c s + (if fr_controller fr = c then 1 else 0)"
  using assms by (cases r; simp add: resume_def catch_retry)+

lemma resume_fails_last:
  assumes "\<not> aborted s (fr_controller fr)" and "fails r" and "\<not> fr_attempt fr < fr_attempts fr - 1"
  shows "\<exists>msg. fst (resume fr r s) = Fulfilled (Nok msg)"
    and "dispatches c (snd (resume fr r s)) = dispatches c s"
  using assms by (cases r; simp add: resume_def catch_last)+

lemma catch_cases:
  "settled (fst (catch fr name msg s))
   \<or> (fst (catch fr name msg s) = Pending (fr\<lparr>fr_attempt := fr_attempt fr + 1\<rparr>)
       \<and> fr_attempt fr < fr_attempts fr - 1)"
  by (simp add: catch_def loop_head_def)

lemma resume_cases:
  "settled (fst (resume fr r s))
   \<or> (fst (resume fr r s) = Pending (fr\<lparr>fr_attempt := fr_attempt fr + 1\<rparr>)
       \<and> fr_attempt fr < fr_attempts fr - 1)"
  unfolding resume_def using catch_cases
  by (auto split: fetch_result.splits sum.splits)

lemma settle_pending:
  assumes "i < length (calls s)" and "calls s ! i = Pending fr"
  shows "settle i r s = (snd (resume fr r s))\<lparr>calls := (calls s)[i := fst (resume fr r s)]\<rparr>"
  using assms by (simp add: settle_def split_def Let_def)

lemma settle_not_pending:
  "\<not> (i < length (calls s) \<and> is_pending (calls s ! i)) \<Longrightarrow> settle i r s = s"
  by (auto simp: settle_def split: promise.splits)

subsection \<open>The registry\<close>

lemma set_update_subset: "set (AList.update k v al) \<subseteq> insert (k, v) (set al)"
  by (induction al) auto

lemma set_delete_subset: "set (AList.delete k al) \<subseteq> set al"
  by (auto simp: AList.delete_eq)

lemma abort_fields [simp]:
  "calls (abort key s) = calls s"
  "next_controller (abort key s) = next_controller s"
  "token (abort key s) = token s"
  "root (abort key s) = root s"
  "defaultRetries (abort key s) = defaultRetries s"
  "defaultTimeout (abort key s) = defaultTimeout s"
  "controllers (abort key s) = AList.delete key (controllers s)"
  by (auto simp: abort_def Let_def map_of_eq_None_iff split: option.splits)

lemma abort_aborted:
  "aborted (abort key s) c = (aborted s c \<or> map_of (controllers s) key = Some c)"
  by (auto simp: abort_def Let_def split: option.splits)

lemma abort_effects:
  "effects (abort key s)
     = effects s @ (case map_of (controllers s) key of None \<Rightarrow> [] | Some c \<Rightarrow> [Abort c])"
  by (simp add: abort_def Let_def split: option.splits)

lemma createAbortController_fst [simp]:
  "fst (createAbortController key s) = next_controller s"
  by (simp add: createAbortController_def Let_def)

lemma createAbortController_fields [simp]:
  "calls (snd (createAbortController key s)) = calls s"
  "next_controller (snd (createAbortController key s)) = Suc (next_controller s)"
  "token (snd (createAbortController key s)) = token s"
  "root (snd (createAbortController key s)) = root s"
  "defaultRetries (snd (createAbortController key s)) = defaultRetries s"
  "defaultTimeout (snd (createAbortController key s)) = defaultTimeout s"
  by (simp_all add: createAbortController_def Let_def)

lemma createAbortController_controllers:
  "controllers (snd (createAbortController key s))
     = AList.update key (next_controller s) (AList.delete key (controllers s))"
  by (simp add: createAbortController_def Let_def)

lemma createAbortController_aborted:
  "aborted (snd (createAbortController key s)) c
     = (c \<noteq> next_controller s \<and> (aborted s c \<or> map_of (controllers s) key = Some c))"
  by (simp add: createAbortController_def Let_def abort_aborted)

lemma createAbortController_effects:
  "effects (snd (createAbortController key s))
     = effects s @ (case map_of (controllers s) key of None \<Rightarrow> [] | Some c \<Rightarrow> [Abort c])"
  by (simp add: createAbortController_def Let_def abort_effects)

lemma createAbortController_lookup:
  "map_of (controllers (snd (createAbortController key s)))
     = (map_of (controllers s))(key \<mapsto> next_controller s)"
  by (simp add: createAbortController_controllers update_conv' delete_conv')

lemma fold_abort_controller_fields [simp]:
  "calls (fold abort_controller cs s) = calls s"
  "controllers (fold abort_controller cs s) = controllers s"
  "next_controller (fold abort_controller cs s) = next_controller s"
  "token (fold abort_controller cs s) = token s"
  "root (fold abort_controller cs s) = root s"
  "defaultRetries (fold abort_controller cs s) = defaultRetries s"
  "defaultTimeout (fold abort_controller cs s) = defaultTimeout s"
  by (induction cs arbitrary: s; simp)+

lemma fold_abort_controller_aborted:
  "aborted (fold abort_controller cs s) c = (aborted s c \<or> c \<in> set cs)"
  by (induction cs arbitrary: s) auto

lemma fold_abort_controller_effects:
  "effects (fold abort_controller cs s) = effects s @ map Abort cs"
  by (induction cs arbitrary: s) auto

lemma abortAll_fields [simp]:
  "calls (abortAll s) = calls s"
  "controllers (abortAll s) = []"
  "next_controller (abortAll s) = next_controller s"
  "token (abortAll s) = token s"
  "root (abortAll s) = root s"
  "defaultRetries (abortAll s) = defaultRetries s"
  "defaultTimeout (abortAll s) = defaultTimeout s"
  by (simp_all add: abortAll_def)

lemma abortAll_aborted:
  "aborted (abortAll s) c = (aborted s c \<or> c \<in> snd ` set (controllers s))"
  by (simp add: abortAll_def fold_abort_controller_aborted)

lemma abortAll_effects:
  "effects (abortAll s) = effects s @ map Abort (map snd (controllers s))"
  by (simp add: abortAll_def fold_abort_controller_effects)

subsection \<open>Well-formed states are kept\<close>

lemma wf_stateI:
  assumes "\<And>k c. (k, c) \<in> set (controllers s) \<Longrightarrow> c < next_controller s"
    and "\<And>p. p \<in> set (calls s) \<Longrightarrow> pending_ok s p"
    and "\<And>c. c < next_controller s \<Longrightarrow> aborted s c \<Longrightarrow> Abort c \<in> set (effects s)"
  shows "wf_state s"
  using assms by (auto simp: wf_state_def)

lemma wf_state_registry: "wf_state s \<Longrightarrow> (k, c) \<in> set (controllers s) \<Longrightarrow> c < next_controller s"
  by (auto simp: wf_state_def)

lemma wf_state_lookup: "wf_state s \<Longrightarrow> map_of (controllers s) k = Some c \<Longrightarrow> c < next_controller s"
  by (auto simp: wf_state_def dest!: map_of_SomeD)

lemma wf_state_call: "wf_state s \<Longrightarrow> p \<in> set (calls s) \<Longrightarrow> pending_ok s p"
  by (simp add: wf_state_def)

lemma wf_state_abort: "wf_state s \<Longrightarrow> c < next_controller s \<Longrightarrow> aborted s c \<Longrightarrow> Abort c \<in> set (effects s)"
  by (simp add: wf_state_def)

lemma wf_state_pending:
  assumes "wf_state s" and "i < length (calls s)" and "calls s ! i = Pending fr"
  shows "fr_controller fr < next_controller s"
    and "aborted s (fr_controller fr) \<or> map_of (controllers s) (key_of fr) = Some (fr_controller fr)"
proof -
  have "pending_ok s (Pending fr)"
    using assms wf_state_call nth_mem by metis
  then show "fr_controller fr < next_controller s"
    and "aborted s (fr_controller fr) \<or> map_of (controllers s) (key_of fr) = Some (fr_controller fr)"
    by simp_all
qed

text \<open>A step that keeps registry and heap and only adds effects keeps the old calls well-formed.\<close>

lemma pending_ok_same:
  assumes "pending_ok s p" and "next_controller s' = next_controller s"
    and "aborted s' = aborted s" and "controllers s' = controllers s"
  shows "pending_ok s' p"
  using assms by (cases p) auto

lemma wf_state_abort_controller: "wf_state s \<Longrightarrow> wf_state (abort_controller c s)"
proof (rule wf_stateI)
  fix p assume "wf_state s" and "p \<in> set (calls (abort_controller c s))"
  then have "pending_ok s p" by (simp add: wf_state_call)
  then show "pending_ok (abort_controller c s) p" by (cases p) auto
qed (auto dest: wf_state_registry wf_state_abort)

lemma wf_state_abortAll: "wf_state s \<Longrightarrow> wf_state (abortAll s)"
proof (rule wf_stateI)
  fix p assume wf: "wf_state s" and "p \<in> set (calls (abortAll s))"
  then have "pending_ok s p" by (simp add: wf_state_call)
  then show "pending_ok (abortAll s) p"
    by (cases p) (auto simp: abortAll_aborted dest!: map_of_SomeD intro: rev_image_eqI)
next
  fix c assume "wf_state s" and "c < next_controller (abortAll s)" and "aborted (abortAll s) c"
  then show "Abort c \<in> set (effects (abortAll s))"
    by (auto simp: abortAll_aborted abortAll_effects dest: wf_state_abort)
qed simp

lemma wf_state_createAbortController:
  assumes wf: "wf_state s"
  shows "wf_state (snd (createAbortController key s))" (is "wf_state ?s'")
proof (rule wf_stateI)
  fix k c assume "(k, c) \<in> set (controllers ?s')"
  then have "(k, c) = (key, next_controller s) \<or> (k, c) \<in> set (controllers s)"
    unfolding createAbortController_controllers
    using set_update_subset set_delete_subset by fastforce
  then show "c < next_controller ?s'"
    using wf by (auto dest: wf_state_registry)
next
  fix p assume "p \<in> set (calls ?s')"
  then have ok: "pending_ok s p" using wf by (simp add: wf_state_call)
  show "pending_ok ?s' p"
  proof (cases p)
    case (Pending fr)
    with ok have b: "fr_controller fr < next_controller s"
      and r: "aborted s (fr_controller fr)
              \<or> map_of (controllers s) (key_of fr) = Some (fr_controller fr)"
      by simp_all
    from b r show ?thesis
      unfolding Pending
      by (cases "key_of fr = key")
        (auto simp: createAbortController_aborted createAbortController_lookup)
  qed simp_all
next
  fix c assume "c < next_controller ?s'" and a: "aborted ?s' c"
  then have c: "c < next_controller s"
    by (simp add: createAbortController_aborted)
  from a have "aborted s c \<or> map_of (controllers s) key = Some c"
    by (simp add: createAbortController_aborted)
  then show "Abort c \<in> set (effects ?s')"
    using wf c by (auto simp: createAbortController_effects dest: wf_state_abort)
qed

lemma wf_state_extend:
  assumes "wf_state s" and "next_controller s' = next_controller s"
    and "aborted s' = aborted s" and "controllers s' = controllers s"
    and "set (effects s) \<subseteq> set (effects s')"
    and "\<And>p. p \<in> set (calls s') \<Longrightarrow> p \<in> set (calls s) \<or> pending_ok s p"
  shows "wf_state s'"
proof (rule wf_stateI)
  fix p assume "p \<in> set (calls s')"
  then have "pending_ok s p" using assms(1,6) wf_state_call by blast
  then show "pending_ok s' p" using assms(2-4) by (rule pending_ok_same)
qed (use assms in \<open>auto dest: wf_state_registry wf_state_abort\<close>)

lemma key_of_attempt [simp]: "key_of (fr\<lparr>fr_attempt := a\<rparr>) = key_of fr"
  by (simp add: key_of_def)

lemma wf_state_settle:
  assumes wf: "wf_state s"
  shows "wf_state (settle i r s)"
proof (cases "i < length (calls s) \<and> is_pending (calls s ! i)")
  case False
  then show ?thesis using wf by (simp add: settle_not_pending)
next
  case True
  then obtain fr where i: "i < length (calls s)" and fr: "calls s ! i = Pending fr"
    by (cases "calls s ! i") auto
  have ok: "pending_ok s (Pending fr)"
    using wf i fr wf_state_call nth_mem by metis
  let ?p = "fst (resume fr r s)"
  have new: "pending_ok s ?p"
    using resume_cases [of fr r s] ok by (cases ?p) auto
  show ?thesis
  proof (rule wf_state_extend [OF wf])
    fix p assume "p \<in> set (calls (settle i r s))"
    then have "p \<in> set ((calls s)[i := ?p])"
      by (simp add: settle_pending [OF i fr])
    then have "p = ?p \<or> p \<in> set (calls s)"
      using set_update_subset_insert by fastforce
    then show "p \<in> set (calls s) \<or> pending_ok s p" using new by auto
  qed (simp_all add: settle_pending [OF i fr] effects_resume_mono)
qed

lemma wf_state_timeout: "wf_state s \<Longrightarrow> wf_state (timeout i s)"
  by (auto simp: timeout_def wf_state_abort_controller split: promise.splits)

lemma request_rejected:
  "buildUrl resolve (root s) path (if m = GET then default_null d else JNull) = None \<Longrightarrow>
   request resolve m path d opts s = s\<lparr>calls := calls s @ [Rejected]\<rparr>"
  by (simp add: request_def)

lemma request_built:
  assumes "buildUrl resolve (root s) path (if m = GET then default_null d else JNull) = Some u"
  shows "request resolve m path d opts s
     = (let s1 = snd (createAbortController (method_str m @ ''::'' @ u) s);
            l = loop_head (first_frame m path d opts u s) s1
        in (snd l)\<lparr>calls := calls s @ [fst l]\<rparr>)"
  using assms
  by (simp add: request_def Let_def split_def first_frame_def attempts_of_def
      cong: option.case_cong)

lemma request_dispatched:
  assumes "buildUrl resolve (root s) path (if m = GET then default_null d else JNull) = Some u"
    and "0 < attempts_of opts s"
  shows "request resolve m path d opts s
     = (dispatch (first_frame m path d opts u s)
          (snd (createAbortController (method_str m @ ''::'' @ u) s)))
        \<lparr>calls := calls s @ [Pending (first_frame m path d opts u s)]\<rparr>"
  using assms
  by (simp add: request_built Let_def loop_head_def first_frame_def)

lemma wf_state_request:
  assumes wf: "wf_state s"
  shows "wf_state (request resolve m path d opts s)"
proof (cases "buildUrl resolve (root s) path (if m = GET then default_null d else JNull)")
  case None
  show ?thesis
    by (rule wf_state_extend [OF wf]) (auto simp: request_rejected [OF None])
next
  case (Some u)
  let ?key = "method_str m @ ''::'' @ u"
  let ?s1 = "snd (createAbortController ?key s)"
  let ?fr = "first_frame m path d opts u s"
  let ?l = "loop_head ?fr ?s1"
  have wf1: "wf_state ?s1" using wf by (rule wf_state_createAbortController)
  have new: "pending_ok ?s1 (fst ?l)"
    by (simp add: loop_head_def first_frame_def key_of_def createAbortController_lookup)
  have "wf_state ((snd ?l)\<lparr>calls := calls s @ [fst ?l]\<rparr>)"
  proof (rule wf_state_extend [OF wf1])
    fix p assume "p \<in> set (calls ((snd ?l)\<lparr>calls := calls s @ [fst ?l]\<rparr>))"
    then show "p \<in> set (calls ?s1) \<or> pending_ok ?s1 p" using new by auto
  qed (simp_all add: effects_loop_head_mono)
  then show ?thesis by (simp add: request_built [OF Some] Let_def)
qed

lemma wf_state_step: "wf_state s \<Longrightarrow> wf_state (step resolve s ev)"
proof (cases ev)
  case (Set_token v)
  assume "wf_state s"
  then have "wf_state (s\<lparr>token := v\<rparr>)" by (rule wf_state_extend) auto
  then show ?thesis by (simp add: Set_token)
qed (simp_all add: get_def post_def put_def patch_def delete_def wf_state_request
      wf_state_abortAll wf_state_settle wf_state_timeout)

lemma wf_state_run: "wf_state s \<Longrightarrow> wf_state (run resolve s es)"
  unfolding run_def by (induction es arbitrary: s) (simp_all add: wf_state_step)

lemma wf_state_new: "new_SuperFetch root_arg options = Inr s \<Longrightarrow> wf_state s"
  by (auto simp: new_SuperFetch_def wf_state_def split: if_splits)

subsection \<open>Calls and settlements, field by field\<close>

lemma attempts_of_abortAll [simp]: "attempts_of opts (abortAll s) = attempts_of opts s"
  by (simp add: attempts_of_def cong: option.case_cong)

lemma settle_fields [simp]:
  "controllers (settle i r s) = controllers s"
  "aborted (settle i r s) = aborted s"
  "next_controller (settle i r s) = next_controller s"
  "length (calls (settle i r s)) = length (calls s)"
  by (auto simp: settle_def Let_def split_def split: promise.splits)

lemma settle_nth:
  "i < length (calls s) \<Longrightarrow> calls s ! i = Pending fr \<Longrightarrow>
   calls (settle i r s) ! i = fst (resume fr r s)"
  by (simp add: settle_pending)

lemma settle_nth_other:
  "j \<noteq> i \<Longrightarrow> calls (settle i r s) ! j = calls s ! j"
  by (auto simp: settle_def Let_def split_def split: promise.splits)

lemma dispatches_settle:
  "i < length (calls s) \<Longrightarrow> calls s ! i = Pending fr \<Longrightarrow>
   dispatches c (settle i r s) = dispatches c (snd (resume fr r s))"
  by (simp add: settle_pending dispatches_def)

lemma timeout_fields [simp]:
  "controllers (timeout i s) = controllers s"
  "calls (timeout i s) = calls s"
  "next_controller (timeout i s) = next_controller s"
  by (auto simp: timeout_def split: promise.splits)

lemma resume_success:
  assumes "\<not> aborted s (fr_controller fr)" and "ok resp" and "decode resp = Inr p"
  shows "fst (resume fr (Response resp) s) = Fulfilled (Data p)"
  using assms by (simp add: resume_def)

lemma request_fields:
  assumes "buildUrl resolve (root s) path (if m = GET then default_null d else JNull) = Some u"
  shows "controllers (request resolve m path d opts s)
           = AList.update (method_str m @ ''::'' @ u) (next_controller s)
               (AList.delete (method_str m @ ''::'' @ u) (controllers s))"
    and "aborted (request resolve m path d opts s) c
           = (c \<noteq> next_controller s
              \<and> (aborted s c \<or> map_of (controllers s) (method_str m @ ''::'' @ u) = Some c))"
    and "next_controller (request resolve m path d opts s) = Suc (next_controller s)"
    and "length (calls (request resolve m path d opts s)) = Suc (length (calls s))"
    and "j < length (calls s) \<Longrightarrow> calls (request resolve m path d opts s) ! j = calls s ! j"
  by (simp_all add: request_built [OF assms] Let_def createAbortController_controllers
      createAbortController_aborted nth_append)

lemma request_effects:
  assumes "buildUrl resolve (root s) path (if m = GET then default_null d else JNull) = Some u"
    and "0 < attempts_of opts s"
  shows "effects (request resolve m path d opts s)
           = effects s
             @ (case map_of (controllers s) (method_str m @ ''::'' @ u) of
                  None \<Rightarrow> [] | Some c \<Rightarrow> [Abort c])
             @ [Fetch \<lparr>f_url = u, f_method = m,
                       f_headers = request_headers (token s) opts (default_null d),
                       f_body = snd (payload_of (default_null d)),
                       f_signal = next_controller s\<rparr>]"
    and "calls (request resolve m path d opts s)
           = calls s @ [Pending (first_frame m path d opts u s)]"
  by (simp_all add: request_dispatched [OF assms] dispatch_def createAbortController_effects
      first_frame_def)

lemma example_registered_facts:
  "wf_state example_registered"
  "buildUrl example_resolve (root example_registered) ''/users''
     (if GET = GET then default_null example_params else JNull)
     = Some ''https://api.test/users?id=1&id=2''"
  "0 < attempts_of no_opts example_registered"
  "controllers example_registered = [(''GET::https://api.test/users?id=1&id=2'', 0)]"
  "next_controller example_registered = 1"
  "length (calls example_registered) = 1"
  "ok example_response" "decode example_response = Inr (Json (JArr []))"
  by code_simp+

subsection \<open>C8: abortAll\<close>

text \<open>
  C8. \<open>abortAll()\<close> aborts the controller of every key in the registry and leaves the
  registry empty. A call issued afterwards (to any key, those included) gets a controller
  that is new, different from every controller aborted, not aborted itself and alone in
  the registry; its request is dispatched on that signal, and a successful response
  resolves it with the decoded payload.
\<close>

theorem abortAll_clears_registry:
  assumes wf: "wf_state s"
    and url: "buildUrl resolve (root s) path (if m = GET then default_null d else JNull) = Some u"
    and att: "0 < attempts_of opts s"
  defines "s1 \<equiv> abortAll s"
  defines "s2 \<equiv> request resolve m path d opts s1"
  shows "(\<forall>kc \<in> set (controllers s). aborted s1 (snd kc) \<and> snd kc \<noteq> next_controller s)
    \<and> effects s1 = effects s @ map Abort (map snd (controllers s))
    \<and> controllers s1 = []
    \<and> controllers s2 = [(method_str m @ ''::'' @ u, next_controller s)]
    \<and> \<not> aborted s2 (next_controller s)
    \<and> calls s2 = calls s @ [Pending (first_frame m path d opts u s)]
    \<and> (\<exists>f. effects s2 = effects s1 @ [Fetch f] \<and> f_signal f = next_controller s)
    \<and> (\<forall>resp p. ok resp \<and> decode resp = Inr p \<longrightarrow>
          calls (settle (length (calls s)) (Response resp) s2) ! length (calls s)
            = Fulfilled (Data p))"
proof -
  have url1: "buildUrl resolve (root s1) path (if m = GET then default_null d else JNull) = Some u"
    using url by (simp add: s1_def)
  have att1: "0 < attempts_of opts s1" using att by (simp add: s1_def)
  have ff: "first_frame m path d opts u (abortAll s) = first_frame m path d opts u s"
    by (simp add: first_frame_def cong: option.case_cong)
  have c2: "calls s2 = calls s @ [Pending (first_frame m path d opts u s)]"
    using request_effects(2) [OF url1 att1] by (simp add: s2_def s1_def ff)
  have na: "\<not> aborted s2 (next_controller s)"
    using request_fields(2) [OF url1] by (simp add: s2_def s1_def)
  have "(\<forall>kc \<in> set (controllers s). aborted s1 (snd kc) \<and> snd kc \<noteq> next_controller s)"
    using wf by (auto simp: s1_def abortAll_aborted dest: wf_state_registry)
  moreover have "effects s1 = effects s @ map Abort (map snd (controllers s))"
    by (simp add: s1_def abortAll_effects)
  moreover have "controllers s1 = []" by (simp add: s1_def)
  moreover have "controllers s2 = [(method_str m @ ''::'' @ u, next_controller s)]"
    using request_fields(1) [OF url1] by (simp add: s2_def s1_def)
  moreover have "\<exists>f. effects s2 = effects s1 @ [Fetch f] \<and> f_signal f = next_controller s"
    using request_effects(1) [OF url1 att1] by (simp add: s2_def s1_def)
  moreover have "calls (settle (length (calls s)) (Response resp) s2) ! length (calls s)
            = Fulfilled (Data p)" if "ok resp \<and> decode resp = Inr p" for resp p
  proof -
    have "calls s2 ! length (calls s) = Pending (first_frame m path d opts u s)"
      by (simp add: c2)
    moreover have "length (calls s) < length (calls s2)" by (simp add: c2)
    moreover have "\<not> aborted s2 (fr_controller (first_frame m path d opts u s))"
      using na by (simp add: first_frame_def)
    ultimately show ?thesis
      using that by (simp add: settle_nth resume_success)
  qed
  ultimately show ?thesis using c2 na by blast
qed


theorem abortAll_clears_registry_witness:
  "wf_state example_registered
   \<and> buildUrl example_resolve (root example_registered) ''/users''
       (if GET = GET then default_null example_params else JNull)
       = Some ''https://api.test/users?id=1&id=2''
   \<and> 0 < attempts_of no_opts example_registered
   \<and> controllers example_registered = [(''GET::https://api.test/users?id=1&id=2'', 0)]
   \<and> aborted (abortAll example_registered) 0
   \<and> controllers (abortAll example_registered) = []
   \<and> controllers (request example_resolve GET ''/users'' example_params no_opts
         (abortAll example_registered)) = [(''GET::https://api.test/users?id=1&id=2'', 1)]
   \<and> calls (settle 1 (Response example_response)
         (request example_resolve GET ''/users'' example_params no_opts
           (abortAll example_registered))) ! 1 = Fulfilled (Data (Json (JArr [])))"
proof -
  note f = example_registered_facts
  note t = abortAll_clears_registry [OF f(1) f(2) f(3)]
  from t have "\<forall>kc \<in> set (controllers example_registered).
      aborted (abortAll example_registered) (snd kc)" by blast
  then have a: "aborted (abortAll example_registered) 0" by (simp add: f(4))
  from t have b: "controllers (abortAll example_registered) = []" by blast
  from t have c: "controllers (request example_resolve GET ''/users'' example_params no_opts
         (abortAll example_registered)) = [(''GET::https://api.test/users?id=1&id=2'', 1)]"
    by (simp add: f(5))
  from t f(7,8) have d: "calls (settle (length (calls example_registered)) (Response example_response)
         (request example_resolve GET ''/users'' example_params no_opts
           (abortAll example_registered))) ! length (calls example_registered)
       = Fulfilled (Data (Json (JArr [])))" by blast
  from f(1-4) a b c d show ?thesis by (simp add: f(6))
qed

subsection \<open>C6: the registry entry of a call\<close>

text \<open>
  The claim C6 says that a completed request leaves no entry under its key. The code
  never removes the entry on completion: after a success, after retry exhaustion and
  after a timeout alike, the key still maps to the controller of the completed call.
\<close>

theorem completed_request_stays_registered:
  "calls (run example_resolve example_client
      [Get ''/users'' example_params no_opts, Settle 0 (Response example_response)]) ! 0
     = Fulfilled (Data (Json (JArr [])))
   \<and> map_of (controllers (run example_resolve example_client
      [Get ''/users'' example_params no_opts, Settle 0 (Response example_response)]))
        ''GET::https://api.test/users?id=1&id=2'' = Some 0
   \<and> calls (run example_resolve example_client
      [Get ''/users'' example_params no_opts, Settle 0 (NetworkError ''down''),
       Settle 0 (NetworkError ''down''), Settle 0 (NetworkError ''down'')]) ! 0
     = Fulfilled (Nok (TypeError_message ''down''))
   \<and> map_of (controllers (run example_resolve example_client
      [Get ''/users'' example_params no_opts, Settle 0 (NetworkError ''down''),
       Settle 0 (NetworkError ''down''), Settle 0 (NetworkError ''down'')]))
        ''GET::https://api.test/users?id=1&id=2'' = Some 0
   \<and> calls (run example_resolve example_client
      [Get ''/users'' example_params (no_opts\<lparr>ro_timeout := Some 100\<rparr>), Timeout 0,
       Settle 0 (Response example_response)]) ! 0
     = Fulfilled (Nok AbortError_message)
   \<and> map_of (controllers (run example_resolve example_client
      [Get ''/users'' example_params (no_opts\<lparr>ro_timeout := Some 100\<rparr>), Timeout 0,
       Settle 0 (Response example_response)]))
        ''GET::https://api.test/users?id=1&id=2'' = Some 0"
  by code_simp

lemma request_key_None:
  "(request_key resolve s m path d = None)
     = (buildUrl resolve (root s) path (if m = GET then default_null d else JNull) = None)"
  by (simp add: request_key_def)

lemma request_key_Some:
  "request_key resolve s m path d = Some k \<Longrightarrow>
   \<exists>u. buildUrl resolve (root s) path (if m = GET then default_null d else JNull) = Some u
       \<and> k = method_str m @ ''::'' @ u"
  by (auto simp: request_key_def)

lemma request_promise:
  "calls (request resolve m path d opts s) ! length (calls s)
     = (case buildUrl resolve (root s) path (if m = GET then default_null d else JNull) of
          None \<Rightarrow> Rejected
        | Some u \<Rightarrow>
            if 0 < attempts_of opts s then Pending (first_frame m path d opts u s)
            else Fulfilled Undefined)"
  by (auto simp: request_rejected request_built Let_def loop_head_def first_frame_def
      split: option.splits)

lemma request_keeps_other_entry:
  assumes "request_key resolve s m path d \<noteq> Some k"
  shows "map_of (controllers (request resolve m path d opts s)) k = map_of (controllers s) k"
proof (cases "buildUrl resolve (root s) path (if m = GET then default_null d else JNull)")
  case None
  then show ?thesis by (simp add: request_rejected)
next
  case (Some u)
  with assms have "k \<noteq> method_str m @ ''::'' @ u" by (auto simp: request_key_def)
  then show ?thesis
    by (simp add: request_fields(1) [OF Some] update_conv' delete_conv')
qed

lemma step_keeps_entry:
  assumes "ev \<noteq> AbortAll" and "call_key resolve s ev \<noteq> Some k"
  shows "map_of (controllers (step resolve s ev)) k = map_of (controllers s) k"
  using assms
  by (cases ev)
    (simp_all add: get_def post_def put_def patch_def delete_def request_keeps_other_entry)

text \<open>
  C6, amended. At request start a fresh controller (not aborted, different from every
  controller in the registry) is registered under the key \<open>method::fullUrl\<close>. It is not
  removed when the request completes: a settlement (success, cancellation or final retry
  exhaustion) and the firing of the timer leave the registry as it is, so a request that
  completes while its controller is registered leaves its entry under its key. An entry
  leaves the registry only through \<open>abortAll()\<close>, which empties it, or through a later
  call with the same key, which puts its own controller in its place; every other event
  keeps it.
\<close>

theorem registry_entry_lifetime:
  assumes wf: "wf_state s"
  shows "(request_key resolve s m path d = Some k \<longrightarrow>
            map_of (controllers (request resolve m path d opts s)) k = Some (next_controller s)
            \<and> \<not> aborted (request resolve m path d opts s) (next_controller s)
            \<and> (\<forall>kc \<in> set (controllers s). snd kc \<noteq> next_controller s))
    \<and> controllers (settle i r s) = controllers s
    \<and> controllers (timeout i s) = controllers s
    \<and> (i < length (calls s) \<and> calls s ! i = Pending fr
          \<and> map_of (controllers s) (key_of fr) = Some (fr_controller fr) \<longrightarrow>
          map_of (controllers (settle i r s)) (key_of fr) = Some (fr_controller fr)
          \<and> map_of (controllers (timeout i s)) (key_of fr) = Some (fr_controller fr))
    \<and> (map_of (controllers s) k' = Some c \<and> ev \<noteq> AbortAll \<and> call_key resolve s ev \<noteq> Some k' \<longrightarrow>
          map_of (controllers (step resolve s ev)) k' = Some c)
    \<and> controllers (abortAll s) = []
    \<and> (map_of (controllers s) k = Some c \<and> request_key resolve s m path d = Some k \<longrightarrow>
          map_of (controllers (request resolve m path d opts s)) k \<noteq> Some c)"
proof -
  have reg: "map_of (controllers (request resolve m path d opts s)) k = Some (next_controller s)
            \<and> \<not> aborted (request resolve m path d opts s) (next_controller s)"
    if "request_key resolve s m path d = Some k"
  proof -
    from request_key_Some [OF that] obtain u where
      u: "buildUrl resolve (root s) path (if m = GET then default_null d else JNull) = Some u"
      and k: "k = method_str m @ ''::'' @ u" by auto
    show ?thesis
      using request_fields(1,2) [OF u] by (simp add: k update_conv')
  qed
  have fresh: "\<forall>kc \<in> set (controllers s). snd kc \<noteq> next_controller s"
    using wf by (auto dest: wf_state_registry)
  have repl: "map_of (controllers (request resolve m path d opts s)) k \<noteq> Some c"
    if "map_of (controllers s) k = Some c" and "request_key resolve s m path d = Some k"
    using reg [OF that(2)] wf_state_lookup [OF wf that(1)] by simp
  from reg fresh repl show ?thesis
    by (auto simp: step_keeps_entry)
qed


theorem registry_entry_lifetime_witness:
  "wf_state example_registered
   \<and> request_key example_resolve example_registered GET ''/users'' example_params
       = Some ''GET::https://api.test/users?id=1&id=2''
   \<and> map_of (controllers example_registered) ''GET::https://api.test/users?id=1&id=2'' = Some 0
   \<and> 0 < length (calls example_registered)
   \<and> calls example_registered ! 0 = Pending example_get_frame
   \<and> key_of example_get_frame = ''GET::https://api.test/users?id=1&id=2''
   \<and> fr_controller example_get_frame = 0
   \<and> call_key example_resolve example_registered (Post ''/users'' JNull no_opts)
       = Some ''POST::https://api.test/users''
   \<and> map_of (controllers (request example_resolve GET ''/users'' example_params no_opts
         example_registered)) ''GET::https://api.test/users?id=1&id=2'' = Some 1
   \<and> map_of (controllers (settle 0 (Response example_response) example_registered))
         ''GET::https://api.test/users?id=1&id=2'' = Some 0
   \<and> map_of (controllers (step example_resolve example_registered
         (Post ''/users'' JNull no_opts))) ''GET::https://api.test/users?id=1&id=2'' = Some 0
   \<and> controllers (abortAll example_registered) = []"
proof -
  have f: "wf_state example_registered"
    "request_key example_resolve example_registered GET ''/users'' example_params
       = Some ''GET::https://api.test/users?id=1&id=2''"
    "map_of (controllers example_registered) ''GET::https://api.test/users?id=1&id=2'' = Some 0"
    "0 < length (calls example_registered)"
    "calls example_registered ! 0 = Pending example_get_frame"
    "key_of example_get_frame = ''GET::https://api.test/users?id=1&id=2''"
    "fr_controller example_get_frame = 0"
    "call_key example_resolve example_registered (Post ''/users'' JNull no_opts)
       = Some ''POST::https://api.test/users''"
    "next_controller example_registered = 1"
    by code_simp+
  have ne: "Post ''/users'' JNull no_opts \<noteq> AbortAll"
    "call_key example_resolve example_registered (Post ''/users'' JNull no_opts)
       \<noteq> Some ''GET::https://api.test/users?id=1&id=2''"
    using f(8) by simp_all
  have reg: "map_of (controllers example_registered) (key_of example_get_frame)
      = Some (fr_controller example_get_frame)"
    by (simp add: f(3,6,7))
  note t = registry_entry_lifetime [OF f(1), of example_resolve GET "''/users''" example_params
      "''GET::https://api.test/users?id=1&id=2''" no_opts 0 "Response example_response"
      example_get_frame "''GET::https://api.test/users?id=1&id=2''" 0
      "Post ''/users'' JNull no_opts"]
  from t f(2) have a: "map_of (controllers (request example_resolve GET ''/users'' example_params
      no_opts example_registered)) ''GET::https://api.test/users?id=1&id=2'' = Some 1"
    by (simp add: f(9))
  from t f(4,5) reg have "map_of (controllers (settle 0 (Response example_response)
      example_registered)) (key_of example_get_frame) = Some (fr_controller example_get_frame)"
    by blast
  then have b: "map_of (controllers (settle 0 (Response example_response) example_registered))
         ''GET::https://api.test/users?id=1&id=2'' = Some 0"
    by (simp add: f(6,7))
  from t f(3) ne have c: "map_of (controllers (step example_resolve example_registered
         (Post ''/users'' JNull no_opts))) ''GET::https://api.test/users?id=1&id=2'' = Some 0"
    by blast
  from t have d: "controllers (abortAll example_registered) = []" by blast
  from f(1-8) a b c d show ?thesis by blast
qed

subsection \<open>C5: the body of a GET\<close>

text \<open>
  The claim C5 says that a GET carries no body. In the code the parameters of
  \<open>get('/users', {id: [1, 2]})\<close> go into the query string and, as JSON, into the
  \<open>body\<close> of the \<open>fetch\<close> call as well, with a JSON content type.
\<close>

theorem get_with_params_sends_body:
  "effects (get example_resolve ''/users'' example_params no_opts example_client)
     = [Fetch \<lparr>f_url = ''https://api.test/users?id=1&id=2'', f_method = GET,
          f_headers = [(''Content-Type'', Some ''application/json''),
                       (''Authorization'', Some ''Bearer abc'')],
          f_body = Some (Body_JSON example_params), f_signal = 0\<rparr>]"
  by code_simp

subsection \<open>Runs\<close>

lemma run_Nil [simp]: "run resolve s [] = s"
  by (simp add: run_def)

lemma run_Cons [simp]: "run resolve s (e # es) = run resolve (step resolve s e) es"
  by (simp add: run_def)

lemma run_append: "run resolve s (es @ es') = run resolve (run resolve s es) es'"
  by (simp add: run_def)

lemma settled_not_pending: "settled p \<Longrightarrow> \<not> is_pending p"
  by (cases p) auto

lemma run_settles_settled:
  "i < length (calls s) \<Longrightarrow> settled (calls s ! i) \<Longrightarrow>
   run resolve s (map (Settle i) rs) = s"
  by (induction rs) (simp_all add: settle_not_pending settled_not_pending)

text \<open>The loop under failing attempts.\<close>

lemma failing_attempts_pending:
  assumes "i < length (calls s)" and "calls s ! i = Pending fr"
    and "\<not> aborted s (fr_controller fr)" and "\<forall>r \<in> set rs. fails r"
    and "int (length rs) < fr_attempts fr - fr_attempt fr"
  shows "\<exists>fr'. calls (run resolve s (map (Settle i) rs)) ! i = Pending fr'"
  using assms
proof (induction rs arbitrary: s fr)
  case Nil
  then show ?case by simp
next
  case (Cons r rs)
  let ?s1 = "settle i r s"
  let ?fr1 = "fr\<lparr>fr_attempt := fr_attempt fr + 1\<rparr>"
  from Cons.prems have retry: "fr_attempt fr < fr_attempts fr - 1" and f: "fails r" by auto
  have p1: "calls ?s1 ! i = Pending ?fr1"
    using Cons.prems(1-3) f retry by (simp add: settle_nth resume_fails_retry)
  have "\<exists>fr'. calls (run resolve ?s1 (map (Settle i) rs)) ! i = Pending fr'"
    using Cons.prems p1 by (intro Cons.IH [of ?s1 ?fr1]) auto
  then show ?case by simp
qed

lemma failing_attempts_exhaust:
  assumes "i < length (calls s)" and "calls s ! i = Pending fr"
    and "\<not> aborted s (fr_controller fr)" and "\<forall>r \<in> set rs. fails r"
    and "int (length rs) = fr_attempts fr - fr_attempt fr" and "rs \<noteq> []"
  shows "(\<exists>msg. calls (run resolve s (map (Settle i) rs)) ! i = Fulfilled (Nok msg))
    \<and> dispatches (fr_controller fr) (run resolve s (map (Settle i) rs)) + 1
        = dispatches (fr_controller fr) s + length rs"
  using assms
proof (induction rs arbitrary: s fr)
  case Nil
  then show ?case by simp
next
  case (Cons r rs)
  let ?s1 = "settle i r s"
  let ?fr1 = "fr\<lparr>fr_attempt := fr_attempt fr + 1\<rparr>"
  from Cons.prems have f: "fails r" by auto
  show ?case
  proof (cases "rs = []")
    case True
    with Cons.prems have last: "\<not> fr_attempt fr < fr_attempts fr - 1" by simp
    show ?thesis
      using Cons.prems(1-3) f last resume_fails_last [of s fr r]
      by (simp add: True settle_nth dispatches_settle)
  next
    case False
    with Cons.prems have retry: "fr_attempt fr < fr_attempts fr - 1"
      by (cases rs) auto
    have p1: "calls ?s1 ! i = Pending ?fr1"
      using Cons.prems(1-3) f retry by (simp add: settle_nth resume_fails_retry)
    have d1: "dispatches (fr_controller fr) ?s1 = dispatches (fr_controller fr) s + 1"
      using Cons.prems(1-3) f retry by (simp add: dispatches_settle resume_fails_retry)
    have "(\<exists>msg. calls (run resolve ?s1 (map (Settle i) rs)) ! i = Fulfilled (Nok msg))
      \<and> dispatches (fr_controller ?fr1) (run resolve ?s1 (map (Settle i) rs)) + 1
          = dispatches (fr_controller ?fr1) ?s1 + length rs"
      using Cons.prems p1 False by (intro Cons.IH [of ?s1 ?fr1]) auto
    then show ?thesis using d1 by simp
  qed
qed

subsection \<open>C2: retries\<close>

text \<open>
  C2. For \<open>n \<ge> 0\<close>, a call issued with \<open>retries = n\<close> (or with \<open>defaultRetries = n\<close> and
  no per-call value) whose attempts all fail with a network error or a non-success status
  makes exactly \<open>n + 1\<close> \<open>fetch\<close> calls on its signal, is still pending after each of
  the first \<open>n\<close> failures, and resolves with \<open>{result: 'nok', message}\<close> at failure
  \<open>n + 1\<close>.
\<close>

theorem retries_exhausted_after_all_attempts:
  assumes n: "0 \<le> n"
    and retries: "ro_retries opts = Some n \<or> (ro_retries opts = None \<and> defaultRetries s = n)"
    and url: "buildUrl resolve (root s) path (if m = GET then default_null d else JNull) = Some u"
    and len: "length rs = nat n + 1"
    and fails: "\<forall>r \<in> set rs. fails r"
  defines "i \<equiv> length (calls s)"
  defines "s0 \<equiv> request resolve m path d opts s"
  shows "dispatches (next_controller s) (run resolve s0 (map (Settle i) rs))
           = dispatches (next_controller s) s + nat n + 1
    \<and> (\<exists>msg. calls (run resolve s0 (map (Settle i) rs)) ! i = Fulfilled (Nok msg))
    \<and> (\<forall>k < length rs. is_pending (calls (run resolve s0 (map (Settle i) (take k rs))) ! i))"
proof -
  let ?fr = "first_frame m path d opts u s"
  have att: "attempts_of opts s = 1 + n"
    using retries by (auto simp: attempts_of_def)
  then have pos: "0 < attempts_of opts s" using n by simp
  have calls0: "calls s0 = calls s @ [Pending ?fr]"
    using request_effects(2) [OF url pos] by (simp add: s0_def)
  have i0: "i < length (calls s0)" and p0: "calls s0 ! i = Pending ?fr"
    by (simp_all add: calls0 i_def)
  have c: "fr_controller ?fr = next_controller s" by (simp add: first_frame_def)
  have na: "\<not> aborted s0 (fr_controller ?fr)"
    using request_fields(2) [OF url] by (simp add: s0_def c)
  have budget: "int (length rs) = fr_attempts ?fr - fr_attempt ?fr"
    using len n by (simp add: first_frame_def att)
  have d0: "dispatches (next_controller s) s0 = dispatches (next_controller s) s + 1"
    using request_effects(1) [OF url pos]
    by (simp add: s0_def dispatches_def split: option.splits)
  have ex: "(\<exists>msg. calls (run resolve s0 (map (Settle i) rs)) ! i = Fulfilled (Nok msg))
    \<and> dispatches (fr_controller ?fr) (run resolve s0 (map (Settle i) rs)) + 1
        = dispatches (fr_controller ?fr) s0 + length rs"
    using i0 p0 na fails budget
  proof (rule failing_attempts_exhaust)
    show "rs \<noteq> []" using len by auto
  qed
  have pend: "is_pending (calls (run resolve s0 (map (Settle i) (take k rs))) ! i)"
    if "k < length rs" for k
  proof -
    have "\<exists>fr'. calls (run resolve s0 (map (Settle i) (take k rs))) ! i = Pending fr'"
    proof (rule failing_attempts_pending [OF i0 p0 na])
      show "\<forall>r \<in> set (take k rs). fails r" using fails by (auto dest: in_set_takeD)
      show "int (length (take k rs)) < fr_attempts ?fr - fr_attempt ?fr"
        using that budget by simp
    qed
    then show ?thesis by auto
  qed
  from ex d0 len pend show ?thesis by (simp add: c)
qed



lemma example_client_facts:
  "buildUrl example_resolve (root example_client) ''/users''
     (if GET = GET then default_null example_params else JNull)
     = Some ''https://api.test/users?id=1&id=2''"
  "defaultRetries example_client = 2" "ro_retries no_opts = None"
  "dispatches (next_controller example_client) example_client = 0"
  "next_controller example_client = 0" "length (calls example_client) = 0"
  "fails (NetworkError ''down'')" "fails (Response example_failure)"
  by code_simp+

theorem retries_exhausted_after_all_attempts_witness:
  "(0::int) \<le> 2
   \<and> ro_retries no_opts = None \<and> defaultRetries example_client = 2
   \<and> buildUrl example_resolve (root example_client) ''/users''
       (if GET = GET then default_null example_params else JNull)
       = Some ''https://api.test/users?id=1&id=2''
   \<and> length [NetworkError ''down'', Response example_failure, NetworkError ''down''] = nat 2 + 1
   \<and> fails (NetworkError ''down'') \<and> fails (Response example_failure)
   \<and> dispatches 0 (run example_resolve
         (request example_resolve GET ''/users'' example_params no_opts example_client)
         (map (Settle 0) [NetworkError ''down'', Response example_failure, NetworkError ''down'']))
       = 3
   \<and> calls (run example_resolve
         (request example_resolve GET ''/users'' example_params no_opts example_client)
         (map (Settle 0) [NetworkError ''down'', Response example_failure, NetworkError ''down'']))
       ! 0 = Fulfilled (Nok (TypeError_message ''down''))"
proof -
  note f = example_client_facts
  let ?rs = "[NetworkError ''down'', Response example_failure, NetworkError ''down'']"
  have n: "(0::int) \<le> 2" by simp
  have r: "ro_retries no_opts = Some 2 \<or> (ro_retries no_opts = None \<and> defaultRetries example_client = 2)"
    by (simp add: f)
  have l: "length ?rs = nat 2 + 1" by simp
  have a: "\<forall>r \<in> set ?rs. fails r" using f(7,8) by simp
  note t = retries_exhausted_after_all_attempts [OF n r f(1) l a]
  from t have d: "dispatches 0 (run example_resolve
         (request example_resolve GET ''/users'' example_params no_opts example_client)
         (map (Settle 0) ?rs)) = 3"
    using f(4) by (simp add: f(5,6))
  have c: "calls (run example_resolve
         (request example_resolve GET ''/users'' example_params no_opts example_client)
         (map (Settle 0) ?rs)) ! 0 = Fulfilled (Nok (TypeError_message ''down''))"
    by code_simp
  from n f(1,2,3,7,8) l d c show ?thesis by simp
qed

subsection \<open>C4: what throws\<close>

lemma attempts_settle:
  assumes "i < length (calls s)" and "calls s ! i = Pending fr"
    and "rs \<noteq> []" and "fr_attempts fr - fr_attempt fr \<le> int (length rs)"
  shows "settled (calls (run resolve s (map (Settle i) rs)) ! i)"
  using assms
proof (induction rs arbitrary: s fr)
  case Nil
  then show ?case by simp
next
  case (Cons r rs)
  let ?s1 = "settle i r s"
  have i1: "i < length (calls ?s1)" using Cons.prems(1) by simp
  have p: "calls ?s1 ! i = fst (resume fr r s)"
    using Cons.prems(1,2) by (simp add: settle_nth)
  from resume_cases [of fr r s] show ?case
  proof
    assume "settled (fst (resume fr r s))"
    then have "settled (calls ?s1 ! i)" by (simp add: p)
    then show ?thesis using i1 by (simp add: run_settles_settled)
  next
    assume a: "fst (resume fr r s) = Pending (fr\<lparr>fr_attempt := fr_attempt fr + 1\<rparr>)
       \<and> fr_attempt fr < fr_attempts fr - 1"
    with Cons.prems(4) have ne: "rs \<noteq> []" by auto
    have "settled (calls (run resolve ?s1 (map (Settle i) rs)) ! i)"
      using i1 p a ne Cons.prems(4)
      by (intro Cons.IH [of ?s1 "fr\<lparr>fr_attempt := fr_attempt fr + 1\<rparr>"]) auto
    then show ?thesis by simp
  qed
qed

lemma regex_test_prefix: "regex_test str = (prefix ''http://'' str \<or> prefix ''https://'' str)"
proof -
  have m: "match_lit lit str = (if prefix lit str then Some (drop (length lit) str) else None)"
    for lit str
    by (induction lit str rule: match_lit.induct) auto
  show ?thesis
    by (auto simp: regex_test_def m prefix_def split: option.splits if_splits)
qed

text \<open>
  The claim C4 says that the constructor throws exactly when the base is not a non-empty
  string matching an absolute HTTP(S) URL, and that no verb call throws to its caller.
  The constructor tests a prefix only: it accepts \<open>http://\<close>, which has no host, and
  every verb of that client then returns a rejected promise, since \<open>new URL\<close> throws
  before the \<open>try\<close> block is entered; and it refuses the absolute URL
  \<open>HTTPS://API.TEST\<close>, whose scheme is in upper case.
\<close>

theorem base_check_is_a_prefix_test:
  "new_SuperFetch (JStr ''http://'') example_options = Inr example_hostless
   \<and> \<not> is_absolute_http_url (JStr ''http://'')
   \<and> calls (get example_resolve ''/users'' JNull no_opts example_hostless) = [Rejected]
   \<and> new_SuperFetch (JStr ''HTTPS://API.TEST'') example_options = Inl Invalid_root
   \<and> is_absolute_http_url (JStr ''HTTPS://API.TEST'')"
proof (intro conjI)
  show "new_SuperFetch (JStr ''http://'') example_options = Inr example_hostless"
    by (simp add: new_SuperFetch_def example_options_def example_hostless_def
        example_client_def regex_test_def)
  show "new_SuperFetch (JStr ''HTTPS://API.TEST'') example_options = Inl Invalid_root"
    by (simp add: new_SuperFetch_def regex_test_def)
qed code_simp+

text \<open>
  C4, amended. The constructor throws exactly when its base is not a string that begins
  with \<open>http://\<close> or \<open>https://\<close> in lower case. The promise a verb returns is rejected
  exactly when the URL of the call cannot be built. A call whose URL is built and which
  has at least one attempt is pending after the verb returns; whatever the transport
  answers to a pending attempt (a response of any status, a network error, or the abort
  of its signal by timeout, \<open>abortAll\<close> or a same-key call), the call is afterwards
  resolved with a decoded payload or with \<open>{result: 'nok', message}\<close>, or pending on its
  next attempt; and it is resolved with one of the two once the transport has answered
  as many attempts as the call has.
\<close>

theorem failures_are_values:
  "(new_SuperFetch root_arg options = Inl Invalid_root) = (\<not> begins_with_http_scheme root_arg)
   \<and> (calls (request resolve m path d opts s) ! length (calls s) = Rejected)
       = (request_key resolve s m path d = None)
   \<and> (request_key resolve s m path d \<noteq> None \<and> 0 < attempts_of opts s \<longrightarrow>
        is_pending (calls (request resolve m path d opts s) ! length (calls s))
        \<and> (\<forall>answers. nat (attempts_of opts s) \<le> length answers \<longrightarrow>
              settled (calls (run resolve (request resolve m path d opts s)
                                (map (Settle (length (calls s))) answers)) ! length (calls s))))
   \<and> (i < length (calls s) \<and> calls s ! i = Pending fr \<longrightarrow>
        settled (calls (settle i r s) ! i) \<or> is_pending (calls (settle i r s) ! i))
   \<and> (i < length (calls s) \<and> calls s ! i = Pending fr \<and> rs \<noteq> []
        \<and> fr_attempts fr - fr_attempt fr \<le> int (length rs) \<longrightarrow>
        settled (calls (run resolve s (map (Settle i) rs)) ! i))"
proof (intro conjI impI allI)
  show "(new_SuperFetch root_arg options = Inl Invalid_root) = (\<not> begins_with_http_scheme root_arg)"
    by (cases root_arg)
      (auto simp: new_SuperFetch_def begins_with_http_scheme_def regex_test_prefix)
next
  show "(calls (request resolve m path d opts s) ! length (calls s) = Rejected)
       = (request_key resolve s m path d = None)"
    by (simp add: request_promise request_key_None split: option.splits)
next
  assume h: "request_key resolve s m path d \<noteq> None \<and> 0 < attempts_of opts s"
  then show "is_pending (calls (request resolve m path d opts s) ! length (calls s))"
    by (auto simp: request_promise request_key_None)
next
  fix answers :: "fetch_result list"
  assume h: "request_key resolve s m path d \<noteq> None \<and> 0 < attempts_of opts s"
    and len: "nat (attempts_of opts s) \<le> length answers"
  from h obtain u where
    u: "buildUrl resolve (root s) path (if m = GET then default_null d else JNull) = Some u"
    by (auto simp: request_key_None)
  let ?s0 = "request resolve m path d opts s"
  let ?fr = "first_frame m path d opts u s"
  have p: "calls ?s0 ! length (calls s) = Pending ?fr"
    using h u by (simp add: request_promise)
  have i: "length (calls s) < length (calls ?s0)"
    by (simp add: request_fields(4) [OF u])
  have ne: "answers \<noteq> []" using h len by auto
  have b: "fr_attempts ?fr - fr_attempt ?fr \<le> int (length answers)"
    using len by (simp add: first_frame_def)
  show "settled (calls (run resolve ?s0 (map (Settle (length (calls s))) answers))
          ! length (calls s))"
    using i p ne b by (rule attempts_settle)
next
  assume "i < length (calls s) \<and> calls s ! i = Pending fr"
  then show "settled (calls (settle i r s) ! i) \<or> is_pending (calls (settle i r s) ! i)"
    using resume_cases [of fr r s] by (auto simp: settle_nth)
next
  assume "i < length (calls s) \<and> calls s ! i = Pending fr \<and> rs \<noteq> []
        \<and> fr_attempts fr - fr_attempt fr \<le> int (length rs)"
  then show "settled (calls (run resolve s (map (Settle i) rs)) ! i)"
    by (auto intro: attempts_settle)
qed


theorem failures_are_values_witness:
  "new_SuperFetch (JStr ''not-a-url'') example_options = Inl Invalid_root
   \<and> \<not> begins_with_http_scheme (JStr ''not-a-url'')
   \<and> request_key example_resolve example_hostless GET ''/users'' JNull = None
   \<and> calls (request example_resolve GET ''/users'' JNull no_opts example_hostless)
       ! length (calls example_hostless) = Rejected
   \<and> request_key example_resolve example_client GET ''/users'' example_params
       = Some ''GET::https://api.test/users?id=1&id=2''
   \<and> 0 < attempts_of no_opts example_client
   \<and> nat (attempts_of no_opts example_client)
       \<le> length [Response example_failure, NetworkError ''down'', Response example_failure]
   \<and> is_pending (calls (request example_resolve GET ''/users'' example_params no_opts
         example_client) ! length (calls example_client))
   \<and> settled (calls (run example_resolve
         (request example_resolve GET ''/users'' example_params no_opts example_client)
         (map (Settle (length (calls example_client)))
            [Response example_failure, NetworkError ''down'', Response example_failure]))
       ! length (calls example_client))
   \<and> 0 < length (calls example_registered)
   \<and> calls example_registered ! 0 = Pending example_get_frame
   \<and> fr_attempts example_get_frame - fr_attempt example_get_frame \<le> int (length
        [Response example_failure, NetworkError ''down'', Response example_response])
   \<and> settled (calls (run example_resolve example_registered
        (map (Settle 0) [Response example_failure, NetworkError ''down'',
           Response example_response])) ! 0)"
proof -
  let ?rs = "[Response example_failure, NetworkError ''down'', Response example_response]"
  let ?fs = "[Response example_failure, NetworkError ''down'', Response example_failure]"
  have h: "request_key example_resolve example_hostless GET ''/users'' JNull = None"
    "request_key example_resolve example_client GET ''/users'' example_params
       = Some ''GET::https://api.test/users?id=1&id=2''"
    "0 < attempts_of no_opts example_client"
    "nat (attempts_of no_opts example_client) \<le> length ?fs"
    by code_simp+
  have p: "0 < length (calls example_registered)"
    "calls example_registered ! 0 = Pending example_get_frame"
    "fr_attempts example_get_frame - fr_attempt example_get_frame \<le> int (length ?rs)"
    by code_simp+
  have nu: "\<not> begins_with_http_scheme (JStr ''not-a-url'')"
    by (simp add: begins_with_http_scheme_def)
  note t0 = failures_are_values [of "JStr ''not-a-url''" example_options example_resolve GET
      "''/users''" JNull no_opts example_hostless]
  note t1 = failures_are_values [of _ _ example_resolve GET "''/users''" example_params no_opts
      example_client]
  note t2 = failures_are_values [of _ _ example_resolve _ _ _ _ example_registered 0
      example_get_frame _ ?rs]
  from t0 nu have a: "new_SuperFetch (JStr ''not-a-url'') example_options = Inl Invalid_root"
    by blast
  from t0 h(1) have b: "calls (request example_resolve GET ''/users'' JNull no_opts
      example_hostless) ! length (calls example_hostless) = Rejected"
    by blast
  have k: "request_key example_resolve example_client GET ''/users'' example_params \<noteq> None"
    by (simp add: h(2))
  from t1 k h(3) have c: "is_pending (calls (request example_resolve GET ''/users''
      example_params no_opts example_client) ! length (calls example_client))"
    by blast
  from t1 k h(3,4) have d: "settled (calls (run example_resolve
         (request example_resolve GET ''/users'' example_params no_opts example_client)
         (map (Settle (length (calls example_client))) ?fs)) ! length (calls example_client))"
    by blast
  from t2 p have e: "settled (calls (run example_resolve example_registered
        (map (Settle 0) ?rs)) ! 0)"
    by blast
  from a nu h b c d p e show ?thesis by blast
qed

subsection \<open>C3: cancellation\<close>

lemma dispatches_abort_controller [simp]:
  "dispatches c (abort_controller c' s) = dispatches c s"
  by (simp add: dispatches_def)

lemma dispatches_abortAll [simp]: "dispatches c (abortAll s) = dispatches c s"
  by (simp add: dispatches_def abortAll_effects filter_empty_conv)

lemma dispatches_timeout [simp]: "dispatches c (timeout i s) = dispatches c s"
  by (auto simp: timeout_def split: promise.splits)

lemma dispatches_request_other:
  assumes "buildUrl resolve (root s) path (if m = GET then default_null d else JNull) = Some u"
    and "c \<noteq> next_controller s"
  shows "dispatches c (request resolve m path d opts s) = dispatches c s"
  using assms(2)
  by (simp add: request_built [OF assms(1)] Let_def loop_head_def dispatches_def dispatch_def
      createAbortController_effects first_frame_def split: option.splits)

lemma timeout_aborted:
  "i < length (calls s) \<Longrightarrow> calls s ! i = Pending fr \<Longrightarrow> 0 < fr_timeoutMs fr \<Longrightarrow>
   aborted (timeout i s) (fr_controller fr)"
  by (simp add: timeout_def)

lemma abortAll_pending_aborted:
  assumes "wf_state s" and "i < length (calls s)" and "calls s ! i = Pending fr"
  shows "aborted (abortAll s) (fr_controller fr)"
  using wf_state_pending(2) [OF assms]
  by (auto simp: abortAll_aborted dest!: map_of_SomeD intro: rev_image_eqI)

lemma request_pending_aborted:
  assumes "wf_state s" and "i < length (calls s)" and "calls s ! i = Pending fr"
    and "buildUrl resolve (root s) path (if m = GET then default_null d else JNull) = Some u"
    and "key_of fr = method_str m @ ''::'' @ u"
  shows "aborted (request resolve m path d opts s) (fr_controller fr)"
  using wf_state_pending [OF assms(1-3)] assms(5)
  by (auto simp: request_fields(2) [OF assms(4)])

lemma settle_aborted:
  assumes "i < length (calls s)" and "calls s ! i = Pending fr" and "aborted s (fr_controller fr)"
  shows "calls (settle i r s) ! i = Fulfilled (Nok AbortError_message)"
    and "dispatches c (settle i r s) = dispatches c s"
  using assms by (simp_all add: settle_nth dispatches_settle resume_aborted)

text \<open>
  C3. When the transport settles an attempt whose controller has been aborted, the call
  resolves at once with \<open>{result: 'nok', message}\<close> and no further \<open>fetch\<close> is made,
  whatever attempts remain. This is what happens after the timer of the call has fired,
  after \<open>abortAll()\<close>, and after a later call with the same method and URL.
\<close>

theorem cancellation_is_terminal:
  assumes i: "i < length (calls s)" and fr: "calls s ! i = Pending fr"
  shows "(aborted s (fr_controller fr) \<longrightarrow>
            calls (settle i r s) ! i = Fulfilled (Nok AbortError_message)
            \<and> (\<forall>c. dispatches c (settle i r s) = dispatches c s))
    \<and> (0 < fr_timeoutMs fr \<longrightarrow>
            calls (settle i r (timeout i s)) ! i = Fulfilled (Nok AbortError_message)
            \<and> (\<forall>c. dispatches c (settle i r (timeout i s)) = dispatches c s))
    \<and> (wf_state s \<longrightarrow>
            calls (settle i r (abortAll s)) ! i = Fulfilled (Nok AbortError_message)
            \<and> (\<forall>c. dispatches c (settle i r (abortAll s)) = dispatches c s))
    \<and> (wf_state s \<and> m = fr_method fr
          \<and> buildUrl resolve (root s) path (if m = GET then default_null d else JNull)
              = Some (fr_url fr) \<longrightarrow>
            calls (settle i r (request resolve m path d opts s)) ! i
              = Fulfilled (Nok AbortError_message)
            \<and> dispatches (fr_controller fr) (settle i r (request resolve m path d opts s))
                = dispatches (fr_controller fr) s)"
proof (intro conjI impI allI)
  assume a: "aborted s (fr_controller fr)"
  show "calls (settle i r s) ! i = Fulfilled (Nok AbortError_message)"
    using i fr a by (rule settle_aborted)
  show "dispatches c (settle i r s) = dispatches c s" for c
    using i fr a by (rule settle_aborted)
next
  assume t: "0 < fr_timeoutMs fr"
  have i': "i < length (calls (timeout i s))" and fr': "calls (timeout i s) ! i = Pending fr"
    using i fr by simp_all
  have a: "aborted (timeout i s) (fr_controller fr)" using i fr t by (rule timeout_aborted)
  show "calls (settle i r (timeout i s)) ! i = Fulfilled (Nok AbortError_message)"
    using i' fr' a by (rule settle_aborted)
  show "dispatches c (settle i r (timeout i s)) = dispatches c s" for c
    using settle_aborted(2) [OF i' fr' a] by simp
next
  assume wf: "wf_state s"
  have i': "i < length (calls (abortAll s))" and fr': "calls (abortAll s) ! i = Pending fr"
    using i fr by simp_all
  have a: "aborted (abortAll s) (fr_controller fr)" using wf i fr by (rule abortAll_pending_aborted)
  show "calls (settle i r (abortAll s)) ! i = Fulfilled (Nok AbortError_message)"
    using i' fr' a by (rule settle_aborted)
  show "dispatches c (settle i r (abortAll s)) = dispatches c s" for c
    using settle_aborted(2) [OF i' fr' a] by simp
next
  assume h: "wf_state s \<and> m = fr_method fr
          \<and> buildUrl resolve (root s) path (if m = GET then default_null d else JNull)
              = Some (fr_url fr)"
  then have wf: "wf_state s"
    and url: "buildUrl resolve (root s) path (if m = GET then default_null d else JNull)
              = Some (fr_url fr)"
    and key: "key_of fr = method_str m @ ''::'' @ fr_url fr"
    by (auto simp: key_of_def)
  let ?s' = "request resolve m path d opts s"
  have i': "i < length (calls ?s')" and fr': "calls ?s' ! i = Pending fr"
    using i fr request_fields(4,5) [OF url] by simp_all
  have a: "aborted ?s' (fr_controller fr)"
    using wf i fr url key by (rule request_pending_aborted)
  have ne: "fr_controller fr \<noteq> next_controller s"
    using wf_state_pending(1) [OF wf i fr] by simp
  show "calls (settle i r ?s') ! i = Fulfilled (Nok AbortError_message)"
    using i' fr' a by (rule settle_aborted)
  show "dispatches (fr_controller fr) (settle i r ?s') = dispatches (fr_controller fr) s"
    using settle_aborted(2) [OF i' fr' a] dispatches_request_other [OF url ne] by simp
qed

lemma example_timed_facts:
  "0 < length (calls example_timed)"
  "calls example_timed ! 0 = Pending example_timed_frame"
  "0 < fr_timeoutMs example_timed_frame"
  "fr_attempt example_timed_frame + 1 < fr_attempts example_timed_frame"
  "wf_state example_timed"
  "DELETE = fr_method example_timed_frame"
  "buildUrl example_resolve (root example_timed) ''/users''
     (if DELETE = GET then default_null JNull else JNull) = Some (fr_url example_timed_frame)"
  "dispatches 0 example_timed = 1"
  "fr_controller example_timed_frame = 0"
  "aborted (timeout 0 example_timed) (fr_controller example_timed_frame)"
  "0 < length (calls (timeout 0 example_timed))"
  "calls (timeout 0 example_timed) ! 0 = Pending example_timed_frame"
  by code_simp+

theorem cancellation_is_terminal_witness:
  "0 < length (calls example_timed)
   \<and> calls example_timed ! 0 = Pending example_timed_frame
   \<and> 0 < fr_timeoutMs example_timed_frame
   \<and> fr_attempt example_timed_frame + 1 < fr_attempts example_timed_frame
   \<and> wf_state example_timed
   \<and> aborted (timeout 0 example_timed) (fr_controller example_timed_frame)
   \<and> calls (settle 0 (Response example_response) (timeout 0 example_timed)) ! 0
       = Fulfilled (Nok AbortError_message)
   \<and> dispatches 0 (settle 0 (Response example_response) (timeout 0 example_timed)) = 1
   \<and> calls (settle 0 (Response example_response) (abortAll example_timed)) ! 0
       = Fulfilled (Nok AbortError_message)
   \<and> calls (settle 0 (Response example_response)
         (request example_resolve DELETE ''/users'' JNull no_opts example_timed)) ! 0
       = Fulfilled (Nok AbortError_message)"
proof -
  note f = example_timed_facts
  note t = cancellation_is_terminal [OF f(1) f(2), of "Response example_response" DELETE
      example_resolve "''/users''" JNull no_opts]
  note t' = cancellation_is_terminal [OF f(11) f(12), of "Response example_response"]
  from t' f(10) have z: "calls (settle 0 (Response example_response) (timeout 0 example_timed)) ! 0
       = Fulfilled (Nok AbortError_message)"
    by blast
  from t f(3) have "dispatches 0 (settle 0 (Response example_response) (timeout 0 example_timed))
      = dispatches 0 example_timed"
    by blast
  then have b: "dispatches 0 (settle 0 (Response example_response) (timeout 0 example_timed)) = 1"
    by (simp add: f(8))
  from t f(5) have c: "calls (settle 0 (Response example_response) (abortAll example_timed)) ! 0
       = Fulfilled (Nok AbortError_message)"
    by blast
  from t f(5,6,7) have d: "calls (settle 0 (Response example_response)
         (request example_resolve DELETE ''/users'' JNull no_opts example_timed)) ! 0
       = Fulfilled (Nok AbortError_message)"
    by blast
  from f(1-5) f(10) z b c d show ?thesis by blast
qed

subsection \<open>C1: supersession\<close>

lemma request_calls_prefix:
  "j < length (calls s) \<Longrightarrow> calls (request resolve m path d opts s) ! j = calls s ! j"
  "length (calls (request resolve m path d opts s)) = Suc (length (calls s))"
  by (cases "buildUrl resolve (root s) path (if m = GET then default_null d else JNull)";
      simp add: request_rejected request_fields nth_append)+

lemma request_aborted_mono:
  "c < next_controller s \<Longrightarrow> aborted s c \<Longrightarrow> aborted (request resolve m path d opts s) c"
  by (cases "buildUrl resolve (root s) path (if m = GET then default_null d else JNull)")
    (simp_all add: request_rejected request_fields)

lemma request_next_mono:
  "next_controller s \<le> next_controller (request resolve m path d opts s)"
  by (cases "buildUrl resolve (root s) path (if m = GET then default_null d else JNull)")
    (simp_all add: request_rejected request_fields)

lemma timeout_aborted_mono: "aborted s c \<Longrightarrow> aborted (timeout i s) c"
  by (auto simp: timeout_def split: promise.splits)

lemma cancelled_request:
  "cancelled i fr s \<Longrightarrow> cancelled i fr (request resolve m path d opts s)"
  using request_next_mono [of s resolve m path d opts]
  by (auto simp: cancelled_def request_calls_prefix request_aborted_mono)

lemma cancelled_settle:
  assumes "cancelled i fr s"
  shows "cancelled i fr (settle j r s)"
proof (cases "j = i")
  case False
  then show ?thesis using assms by (simp add: cancelled_def settle_nth_other)
next
  case True
  from assms have i: "i < length (calls s)" and a: "aborted s (fr_controller fr)"
    by (simp_all add: cancelled_def)
  from assms consider "calls s ! i = Pending fr" | "calls s ! i = Fulfilled (Nok AbortError_message)"
    by (auto simp: cancelled_def)
  then show ?thesis
  proof cases
    case 1
    then show ?thesis using assms settle_aborted(1) [OF i 1 a]
      by (simp add: cancelled_def True)
  next
    case 2
    then have "settle i r s = s" by (simp add: settle_not_pending)
    then show ?thesis using assms by (simp add: True)
  qed
qed

lemma cancelled_step: "cancelled i fr s \<Longrightarrow> cancelled i fr (step resolve s ev)"
proof (cases ev)
  case (Set_token v)
  assume "cancelled i fr s"
  then show ?thesis by (simp add: Set_token cancelled_def)
next
  case AbortAll
  assume "cancelled i fr s"
  then show ?thesis by (simp add: AbortAll cancelled_def abortAll_aborted)
next
  case (Timeout j)
  assume "cancelled i fr s"
  then show ?thesis by (simp add: Timeout cancelled_def timeout_aborted_mono)
qed (simp_all add: get_def post_def put_def patch_def delete_def cancelled_request cancelled_settle)

lemma cancelled_run: "cancelled i fr s \<Longrightarrow> cancelled i fr (run resolve s es)"
  by (induction es arbitrary: s) (simp_all add: cancelled_step)

text \<open>
  C1. Let call \<open>i\<close> be pending, and let a second call with the same method and the same
  built URL be issued. Then the controller of the first call is aborted, and that abort
  precedes the \<open>fetch\<close> of the second call among the effects; whatever happens
  afterwards, the first call is pending or resolved with the cancellation outcome, never
  with a payload, and it resolves with \<open>{result: 'nok', message}\<close> as soon as its
  transport settles; the second call is pending on a new controller, which is not aborted
  and is the one registered under the key.
\<close>

theorem same_key_call_supersedes:
  assumes wf: "wf_state s"
    and i: "i < length (calls s)" and fr: "calls s ! i = Pending fr"
    and m: "m = fr_method fr"
    and url: "buildUrl resolve (root s) path (if m = GET then default_null d else JNull)
                = Some (fr_url fr)"
    and att: "0 < attempts_of opts s"
  defines "s' \<equiv> request resolve m path d opts s"
  shows "aborted s' (fr_controller fr)
    \<and> (\<exists>pre f. effects s' = pre @ [Fetch f] \<and> Abort (fr_controller fr) \<in> set pre
          \<and> f_signal f = next_controller s \<and> f_method f = m \<and> f_url f = fr_url fr)
    \<and> (\<forall>es. calls (run resolve s' es) ! i = Pending fr
            \<or> calls (run resolve s' es) ! i = Fulfilled (Nok AbortError_message))
    \<and> (\<forall>es r. calls (run resolve s' (es @ [Settle i r])) ! i = Fulfilled (Nok AbortError_message))
    \<and> calls s' ! length (calls s) = Pending (first_frame m path d opts (fr_url fr) s)
    \<and> next_controller s \<noteq> fr_controller fr
    \<and> \<not> aborted s' (next_controller s)
    \<and> map_of (controllers s') (key_of fr) = Some (next_controller s)"
proof -
  have key: "key_of fr = method_str m @ ''::'' @ fr_url fr" by (simp add: key_of_def m)
  have lt: "fr_controller fr < next_controller s" by (rule wf_state_pending(1) [OF wf i fr])
  have a: "aborted s' (fr_controller fr)"
    unfolding s'_def using wf i fr url key by (rule request_pending_aborted)
  have c: "cancelled i fr s'"
    using a i fr lt request_next_mono [of s resolve m path d opts]
    by (simp add: cancelled_def s'_def request_calls_prefix)
  have eff: "effects s' = (effects s @ (case map_of (controllers s) (key_of fr) of
                  None \<Rightarrow> [] | Some c \<Rightarrow> [Abort c]))
             @ [Fetch \<lparr>f_url = fr_url fr, f_method = m,
                       f_headers = request_headers (token s) opts (default_null d),
                       f_body = snd (payload_of (default_null d)),
                       f_signal = next_controller s\<rparr>]"
    using request_effects(1) [OF url att] by (simp add: s'_def key)
  have ab: "Abort (fr_controller fr) \<in> set (effects s @ (case map_of (controllers s) (key_of fr) of
                  None \<Rightarrow> [] | Some c \<Rightarrow> [Abort c]))"
    using wf_state_pending(2) [OF wf i fr] wf_state_abort [OF wf lt] by auto
  have stay: "calls (run resolve s' es) ! i = Pending fr
            \<or> calls (run resolve s' es) ! i = Fulfilled (Nok AbortError_message)" for es
    using cancelled_run [OF c, of resolve es] by (simp add: cancelled_def)
  have fin: "calls (run resolve s' (es @ [Settle i r])) ! i = Fulfilled (Nok AbortError_message)"
    for es r
  proof -
    let ?t = "run resolve s' es"
    have ct: "cancelled i fr ?t" using c by (rule cancelled_run)
    then have "calls (settle i r ?t) ! i = Fulfilled (Nok AbortError_message)"
      by (auto simp: cancelled_def settle_aborted(1) settle_not_pending)
    then show ?thesis by (simp add: run_append)
  qed
  have new: "calls s' ! length (calls s) = Pending (first_frame m path d opts (fr_url fr) s)"
    using request_effects(2) [OF url att] by (simp add: s'_def)
  have na: "\<not> aborted s' (next_controller s)"
    using request_fields(2) [OF url] by (simp add: s'_def)
  have reg: "map_of (controllers s') (key_of fr) = Some (next_controller s)"
    using request_fields(1) [OF url] by (simp add: s'_def key update_conv')
  have ex: "\<exists>pre f. effects s' = pre @ [Fetch f] \<and> Abort (fr_controller fr) \<in> set pre
          \<and> f_signal f = next_controller s \<and> f_method f = m \<and> f_url f = fr_url fr"
    using ab by (subst eff) (intro exI conjI, rule refl, simp_all)
  have ne: "next_controller s \<noteq> fr_controller fr" using lt by simp
  from a ex stay fin new ne na reg show ?thesis by blast
qed

theorem same_key_call_supersedes_witness:
  "wf_state example_registered
   \<and> 0 < length (calls example_registered)
   \<and> calls example_registered ! 0 = Pending example_get_frame
   \<and> GET = fr_method example_get_frame
   \<and> buildUrl example_resolve (root example_registered) ''/users''
       (if GET = GET then default_null example_params else JNull)
       = Some (fr_url example_get_frame)
   \<and> 0 < attempts_of no_opts example_registered
   \<and> aborted (request example_resolve GET ''/users'' example_params no_opts example_registered)
       (fr_controller example_get_frame)
   \<and> calls (run example_resolve
         (request example_resolve GET ''/users'' example_params no_opts example_registered)
         ([Settle 1 (Response example_response)] @ [Settle 0 (Response example_response)])) ! 0
       = Fulfilled (Nok AbortError_message)
   \<and> calls (run example_resolve
         (request example_resolve GET ''/users'' example_params no_opts example_registered)
         ([Settle 1 (Response example_response)] @ [Settle 0 (Response example_response)])) ! 1
       = Fulfilled (Data (Json (JArr [])))"
proof -
  have f: "wf_state example_registered"
    "0 < length (calls example_registered)"
    "calls example_registered ! 0 = Pending example_get_frame"
    "GET = fr_method example_get_frame"
    "buildUrl example_resolve (root example_registered) ''/users''
       (if GET = GET then default_null example_params else JNull)
       = Some (fr_url example_get_frame)"
    "0 < attempts_of no_opts example_registered"
    by code_simp+
  note t = same_key_call_supersedes [OF f]
  from t have a: "aborted (request example_resolve GET ''/users'' example_params no_opts
      example_registered) (fr_controller example_get_frame)"
    by blast
  from t have b: "calls (run example_resolve
         (request example_resolve GET ''/users'' example_params no_opts example_registered)
         ([Settle 1 (Response example_response)] @ [Settle 0 (Response example_response)])) ! 0
       = Fulfilled (Nok AbortError_message)"
    by blast
  have c: "calls (run example_resolve
         (request example_resolve GET ''/users'' example_params no_opts example_registered)
         ([Settle 1 (Response example_response)] @ [Settle 0 (Response example_response)])) ! 1
       = Fulfilled (Data (Json (JArr [])))"
    by code_simp
  from f a b c show ?thesis by blast
qed

end
